theory Spec2Isabelle
  imports Complex_Main "HOL-Library.Product_Lexorder"
begin

section \<open>Python values and strings\<close>

text \<open>
  The aggregator works on spreadsheet cells as pandas hands them over: a text, a number,
  or the missing-value marker NaN; \<open>row.get\<close> adds Python's \<open>None\<close> for a column that
  is not there. Floats are idealised: a finite float is a real number (no rounding, no
  infinities), and NaN is kept as a value of its own because the code's behaviour depends
  on it. Strings are lists of the characters with code points below 256.
\<close>

datatype fl = NaN | Fin real

datatype pval = PNone | PFl fl | PStr string

text \<open>
  Five behaviours of the Python runtime and of pandas are not part of the repository and
  are taken as parameters: how a finite float is printed (\<open>str(x)\<close>); how a float is
  read from a text (\<open>float(s)\<close>, \<open>None\<close> when it raises \<open>ValueError\<close>); the
  order in which \<open>list(a_set)\<close> enumerates a set of texts, given here the texts in the
  order they were added; how a Series of several cells is printed (\<open>str(series)\<close>);
  and what \<open>pd.read_excel(path, header=None, skiprows=k, nrows=n)\<close> returns for a
  saved sheet, with its own reading of blank cells, of texts that look like numbers and
  of texts that stand for a missing value.
\<close>

record pyrt =
  float_repr :: "real \<Rightarrow> string"
  float_parse :: "string \<Rightarrow> fl option"
  set_order :: "string list \<Rightarrow> string list"
  series_repr :: "pval list \<Rightarrow> string"
  read_excel :: "nat \<Rightarrow> nat option \<Rightarrow> pval list list \<Rightarrow> pval list list"

text \<open>\<open>a + b\<close> on floats: NaN absorbs.\<close>

fun fadd :: "fl \<Rightarrow> fl \<Rightarrow> fl" where
  "fadd (Fin a) (Fin b) = Fin (a + b)"
| "fadd _ _ = NaN"

text \<open>\<open>str(v)\<close>.\<close>

fun py_str :: "pyrt \<Rightarrow> pval \<Rightarrow> string" where
  "py_str rt PNone = ''None''"
| "py_str rt (PFl NaN) = ''nan''"
| "py_str rt (PFl (Fin r)) = float_repr rt r"
| "py_str rt (PStr s) = s"

text \<open>\<open>float(v)\<close>; \<open>None\<close> stands for a raised \<open>TypeError\<close> or \<open>ValueError\<close>.\<close>

fun py_float :: "pyrt \<Rightarrow> pval \<Rightarrow> fl option" where
  "py_float rt PNone = None"
| "py_float rt (PFl f) = Some f"
| "py_float rt (PStr s) = float_parse rt s"

text \<open>\<open>pd.notna(v)\<close> and \<open>pd.isna(v)\<close> on a scalar.\<close>

fun notna :: "pval \<Rightarrow> bool" where
  "notna PNone = False"
| "notna (PFl NaN) = False"
| "notna _ = True"

definition isna :: "pval \<Rightarrow> bool" where
  "isna v = (\<not> notna v)"

text \<open>Truth value of a Python object, as \<open>not x\<close> and \<open>if x\<close> take it. NaN is true.\<close>

fun truthy :: "pval \<Rightarrow> bool" where
  "truthy PNone = False"
| "truthy (PFl NaN) = True"
| "truthy (PFl (Fin r)) = (r \<noteq> 0)"
| "truthy (PStr s) = (s \<noteq> [])"

text \<open>\<open>str.lower()\<close>, character by character.\<close>

definition upper_chars :: string where
  "upper_chars = ''ABCDEFGHIJKLMNOPQRSTUVWXYZ'' @
     [CHR 0xC0, CHR 0xC1, CHR 0xC2, CHR 0xC3, CHR 0xC4, CHR 0xC5, CHR 0xC6, CHR 0xC7,
      CHR 0xC8, CHR 0xC9, CHR 0xCA, CHR 0xCB, CHR 0xCC, CHR 0xCD, CHR 0xCE, CHR 0xCF,
      CHR 0xD0, CHR 0xD1, CHR 0xD2, CHR 0xD3, CHR 0xD4, CHR 0xD5, CHR 0xD6,
      CHR 0xD8, CHR 0xD9, CHR 0xDA, CHR 0xDB, CHR 0xDC, CHR 0xDD, CHR 0xDE]"

definition lower_chars :: string where
  "lower_chars = ''abcdefghijklmnopqrstuvwxyz'' @
     [CHR 0xE0, CHR 0xE1, CHR 0xE2, CHR 0xE3, CHR 0xE4, CHR 0xE5, CHR 0xE6, CHR 0xE7,
      CHR 0xE8, CHR 0xE9, CHR 0xEA, CHR 0xEB, CHR 0xEC, CHR 0xED, CHR 0xEE, CHR 0xEF,
      CHR 0xF0, CHR 0xF1, CHR 0xF2, CHR 0xF3, CHR 0xF4, CHR 0xF5, CHR 0xF6,
      CHR 0xF8, CHR 0xF9, CHR 0xFA, CHR 0xFB, CHR 0xFC, CHR 0xFD, CHR 0xFE]"

definition lower_char :: "char \<Rightarrow> char" where
  "lower_char c = (case map_of (zip upper_chars lower_chars) c of Some d \<Rightarrow> d | None \<Rightarrow> c)"

definition lower :: "string \<Rightarrow> string" where
  "lower s = map lower_char s"

text \<open>The characters \<open>str.strip()\<close> and \<open>str.split()\<close> treat as whitespace.\<close>

definition space_chars :: string where
  "space_chars = [CHR 0x09, CHR 0x0A, CHR 0x0B, CHR 0x0C, CHR 0x0D, CHR 0x1C, CHR 0x1D,
     CHR 0x1E, CHR 0x1F, CHR 0x20, CHR 0x85, CHR 0xA0]"

definition is_space :: "char \<Rightarrow> bool" where
  "is_space c = (c \<in> set space_chars)"

definition strip :: "string \<Rightarrow> string" where
  "strip s = rev (dropWhile is_space (rev (dropWhile is_space s)))"

text \<open>\<open>s.replace('\n', ' ')\<close>.\<close>

definition replace_nl :: "string \<Rightarrow> string" where
  "replace_nl s = map (\<lambda>c. if c = CHR 0x0A then CHR '' '' else c) s"

text \<open>\<open>s.split()\<close>: the maximal runs of non-whitespace; \<open>w\<close> is the run being read.\<close>

fun split_acc :: "string \<Rightarrow> string \<Rightarrow> string list" where
  "split_acc w [] = (if w = [] then [] else [w])"
| "split_acc w (c # cs) =
     (if is_space c then (if w = [] then split_acc [] cs else w # split_acc [] cs)
      else split_acc (w @ [c]) cs)"

definition py_split :: "string \<Rightarrow> string list" where
  "py_split s = split_acc [] s"

text \<open>\<open>sep.join(xs)\<close>.\<close>

fun join :: "string \<Rightarrow> string list \<Rightarrow> string" where
  "join sep [] = []"
| "join sep [x] = x"
| "join sep (x # y # ys) = x @ sep @ join sep (y # ys)"

text \<open>\<open>sub in s\<close> on strings.\<close>

fun contains :: "string \<Rightarrow> string \<Rightarrow> bool" where
  "contains [] sub = (sub = [])"
| "contains (c # cs) sub = (take (length sub) (c # cs) = sub \<or> contains cs sub)"

section \<open>Header normalizer\<close>

text \<open>
  \<open>normalize_header\<close>: a header that is not a text gives the empty text; otherwise the
  six tests run in order on the lower-cased, newline-free, stripped text, and a header no
  test recognises is returned as it came.
\<close>

definition clean_header :: "string \<Rightarrow> string" where
  "clean_header header = strip (replace_nl (lower header))"

fun normalize_header :: "pval \<Rightarrow> string" where
  "normalize_header (PStr header) =
     (let h = clean_header header in
      if contains h ''instrument'' then ''Name''
      else if contains h ''isin'' then ''ISIN''
      else if contains h ''industry'' \<or> contains h ''rating'' then ''Rating''
      else if contains h ''quantity'' then ''Quantity''
      else if contains h ''market value'' \<or> contains h ''rs. in lakhs'' then ''MarketValue''
      else if contains h ''% to net assets'' \<or> contains h ''percentage'' \<or> contains h ''%''
        then ''PctAssets''
      else header)"
| "normalize_header _ = []"

text \<open>The values of \<open>COLUMN_MAPPING\<close>.\<close>

definition canonical_fields :: "string list" where
  "canonical_fields = [''Name'', ''ISIN'', ''Rating'', ''Quantity'', ''MarketValue'', ''PctAssets'']"

text \<open>
  The header rules as the specification lists them: an ordered table of keywords and
  fields, read top-down, the first rule with a keyword in the text deciding.
\<close>

definition header_rules :: "(string list \<times> string) list" where
  "header_rules =
    [([''instrument''], ''Name''),
     ([''isin''], ''ISIN''),
     ([''industry'', ''rating''], ''Rating''),
     ([''quantity''], ''Quantity''),
     ([''market value'', ''rs. in lakhs''], ''MarketValue''),
     ([''% to net assets'', ''percentage'', ''%''], ''PctAssets'')]"

definition first_rule :: "string \<Rightarrow> (string list \<times> string) option" where
  "first_rule h = find (\<lambda>rule. list_ex (contains h) (fst rule)) header_rules"

definition recognized :: "string \<Rightarrow> bool" where
  "recognized header = (first_rule (clean_header header) \<noteq> None)"

text \<open>
  Variants of a header text. Two characters are the same letter in another case when they
  are equal or one is the capital of the other; a line break stands where the other text
  has a blank.
\<close>

definition same_letter :: "char \<Rightarrow> char \<Rightarrow> bool" where
  "same_letter c d = (c = d \<or> (c, d) \<in> set (zip upper_chars lower_chars)
      \<or> (d, c) \<in> set (zip upper_chars lower_chars))"

definition same_break :: "char \<Rightarrow> char \<Rightarrow> bool" where
  "same_break c d = (c = d \<or> (c \<in> {CHR 0x0A, CHR '' ''} \<and> d \<in> {CHR 0x0A, CHR '' ''}))"

definition char_variant :: "char \<Rightarrow> char \<Rightarrow> bool" where
  "char_variant c d = (same_letter c d \<or> same_break c d)"

section \<open>Data frames\<close>

text \<open>
  A row of a data frame is the list of its cells, each under its column label
  (\<open>row.values\<close> is the list of cells). \<open>row.get(name)\<close> looks the label up and
  gives \<open>None\<close> when no column carries it. When two columns carry the label, which
  the renaming of the headers can bring about, pandas returns the Series of the cells
  under it instead of one cell; \<open>cells_under\<close> lists them. The extractor below
  returns no row with a label twice, so that the lookups \<open>row_get\<close> and \<open>field\<close>
  of the merge always meet one cell at most.
\<close>

type_synonym row = "(pval \<times> pval) list"

definition cells_under :: "row \<Rightarrow> string \<Rightarrow> pval list" where
  "cells_under r name = map snd (filter (\<lambda>lv. fst lv = PStr name) r)"

definition unique_labels :: "row \<Rightarrow> bool" where
  "unique_labels r = distinct (map fst r)"

definition row_get :: "row \<Rightarrow> string \<Rightarrow> pval option" where
  "row_get r name = map_of r (PStr name)"

definition field :: "row \<Rightarrow> string \<Rightarrow> pval" where
  "field r name = (case row_get r name of None \<Rightarrow> PNone | Some v \<Rightarrow> v)"

text \<open>
  A readable workbook, as the two calls of \<open>pd.read_excel\<close> see it: the raw grid
  (\<open>header=None\<close>) and, for a header row index, the frame read with that row as
  header. An unreadable file is \<open>None\<close>.
\<close>

record workbook =
  raw_rows :: "pval list list"
  frame_at :: "nat \<Rightarrow> row list"

section \<open>Section extractor\<close>

text \<open>Header discovery over the raw grid.\<close>

definition is_header_row :: "pyrt \<Rightarrow> pval list \<Rightarrow> bool" where
  "is_header_row rt r =
     (let row_vals = map (\<lambda>x. lower (py_str rt x)) r in
      list_ex (\<lambda>v. contains v ''isin'') row_vals \<and> list_ex (\<lambda>v. contains v ''quantity'') row_vals)"

fun find_header :: "pyrt \<Rightarrow> pval list list \<Rightarrow> nat \<Rightarrow> nat option" where
  "find_header rt [] i = None"
| "find_header rt (r # rs) i = (if is_header_row rt r then Some i else find_header rt rs (Suc i))"

text \<open>The renaming of the columns.\<close>

definition rename_label :: "pval \<Rightarrow> pval" where
  "rename_label col =
     (let cleaned = normalize_header col in
      if cleaned \<in> set canonical_fields then PStr cleaned else col)"

definition rename_columns :: "row \<Rightarrow> row" where
  "rename_columns r = map (\<lambda>lv. (rename_label (fst lv), snd lv)) r"

text \<open>
  The text of a row that is searched for markers. \<open>str(row.get('Name', ''))\<close> is the
  empty text without a name column, the text of the cell with one, and the printed Series
  with several. (The row number in the last line of a printed Series has no part in any
  marker, so the printed form is taken as depending on the cells alone.)
\<close>

definition content_lower :: "pyrt \<Rightarrow> row \<Rightarrow> string" where
  "content_lower rt r =
     (let content_check = (case cells_under r ''Name'' of
                             [] \<Rightarrow> [] | [v] \<Rightarrow> py_str rt v | vs \<Rightarrow> series_repr rt vs);
          content_check = (if content_check = [] \<or> lower content_check = ''nan''
                           then join '' '' (map (py_str rt) (map snd r)) else content_check)
      in join '' '' (py_split (lower content_check)))"

definition is_start :: "string \<Rightarrow> bool" where
  "is_start content = (contains content ''(a) listed'' \<and> contains content ''stock'')"

definition stop_markers :: "string list" where
  "stop_markers = [''Arbitrage'', ''Sub Total'', ''Total'', ''Debt'', ''Cash'', ''Grand Total'']"

definition is_stop :: "string \<Rightarrow> bool" where
  "is_stop content = list_ex (\<lambda>m. contains content (lower m)) stop_markers"

definition has_isin :: "pyrt \<Rightarrow> row \<Rightarrow> bool" where
  "has_isin rt r =
     (let isin = field r ''ISIN'' in
      notna isin \<and> strip (py_str rt isin) \<noteq> [] \<and> lower (py_str rt isin) \<noteq> ''nan'')"

text \<open>
  The loop over the rows of the frame, with the flag \<open>capturing\<close>; the result is
  \<open>filtered_rows\<close>.
\<close>

fun capture :: "pyrt \<Rightarrow> bool \<Rightarrow> row list \<Rightarrow> row list" where
  "capture rt capturing [] = []"
| "capture rt capturing (r # rs) =
     (if is_start (content_lower rt r) then capture rt True rs
      else if capturing then
        (if is_stop (content_lower rt r) then []
         else if has_isin rt r then r # capture rt True rs
         else capture rt True rs)
      else capture rt False rs)"

text \<open>
  The exceptions of the loop. With two columns under \<open>ISIN\<close> the value looked up is a
  Series, and the test \<open>pd.notna(isin) and ...\<close> raises on it, for every row that
  comes to the test: a row of the captured section that is no marker.
\<close>

fun scan_raises :: "pyrt \<Rightarrow> bool \<Rightarrow> row list \<Rightarrow> bool" where
  "scan_raises rt capturing [] = False"
| "scan_raises rt capturing (r # rs) =
     (if is_start (content_lower rt r) then scan_raises rt True rs
      else if capturing then
        (if is_stop (content_lower rt r) then False
         else 1 < length (cells_under r ''ISIN'') \<or> scan_raises rt True rs)
      else scan_raises rt False rs)"

text \<open>
  \<open>pd.DataFrame(filtered_rows)\<close> raises when a row among them has a label twice.
\<close>

definition frame_raises :: "row list \<Rightarrow> bool" where
  "frame_raises filtered_rows = list_ex (\<lambda>r. \<not> unique_labels r) filtered_rows"

text \<open>
  \<open>read_portfolio_file\<close>: \<open>None\<close> when the file cannot be read, when no header row
  is found, or when anything raises after that (the \<open>except\<close> clause answers
  \<open>None\<close> for every exception); else the captured rows.
\<close>

definition read_portfolio_file :: "pyrt \<Rightarrow> workbook option \<Rightarrow> row list option" where
  "read_portfolio_file rt file =
     (case file of
        None \<Rightarrow> None
      | Some wb \<Rightarrow>
          (case find_header rt (raw_rows wb) 0 of
             None \<Rightarrow> None
           | Some header_row_idx \<Rightarrow>
               (let df = map rename_columns (frame_at wb header_row_idx) in
                if scan_raises rt False df \<or> frame_raises (capture rt False df) then None
                else Some (capture rt False df))))"

section \<open>Cross-period merge\<close>

text \<open>
  A Python \<open>dict\<close> keeps its keys in insertion order: an association list without
  repeated keys. \<open>d[k] = v\<close> replaces the value of a key that is there and appends a
  new key at the end.
\<close>

fun dict_set :: "('k \<times> 'v) list \<Rightarrow> 'k \<Rightarrow> 'v \<Rightarrow> ('k \<times> 'v) list" where
  "dict_set [] k v = [(k, v)]"
| "dict_set ((k', v') # d) k v = (if k' = k then (k', v) # d else (k', v') # dict_set d k v)"

text \<open>\<open>d[k]\<close> changed in place by \<open>f\<close>, for a key that is there.\<close>

fun dict_upd :: "('k \<times> 'v) list \<Rightarrow> 'k \<Rightarrow> ('v \<Rightarrow> 'v) \<Rightarrow> ('k \<times> 'v) list" where
  "dict_upd [] k f = []"
| "dict_upd ((k', v') # d) k f = (if k' = k then (k', f v') # d else (k', v') # dict_upd d k f)"

record metrics =
  Quantity :: pval
  MarketValue :: pval
  PctAssets :: pval

record entry =
  Name :: pval
  Rating :: pval
  Months :: "(string \<times> metrics) list"

type_synonym portfolio = "(string \<times> entry) list"

text \<open>
  The body of the loop over the rows of one file, in three parts: the key, the entry made
  for a key that is new, and the update of the entry. Rows come from the extractor, so
  the \<open>ISIN\<close> column is there.
\<close>

definition row_key :: "pyrt \<Rightarrow> row \<Rightarrow> string" where
  "row_key rt r = strip (py_str rt (field r ''ISIN''))"

definition new_entry :: "row \<Rightarrow> entry" where
  "new_entry r = \<lparr>Name = field r ''Name'', Rating = field r ''Rating'', Months = []\<rparr>"

definition row_metrics :: "row \<Rightarrow> metrics" where
  "row_metrics r = \<lparr>Quantity = field r ''Quantity'', MarketValue = field r ''MarketValue'',
     PctAssets = field r ''PctAssets''\<rparr>"

definition update_name :: "row \<Rightarrow> pval \<Rightarrow> pval" where
  "update_name r n = (if \<not> truthy n \<and> notna (field r ''Name'') then field r ''Name'' else n)"

definition update_entry :: "string \<Rightarrow> row \<Rightarrow> entry \<Rightarrow> entry" where
  "update_entry fname r e =
     e\<lparr>Name := update_name r (Name e), Months := dict_set (Months e) fname (row_metrics r)\<rparr>"

definition merge_row :: "pyrt \<Rightarrow> string \<Rightarrow> row \<Rightarrow> portfolio \<Rightarrow> portfolio" where
  "merge_row rt fname r pf =
     (let isin = row_key rt r;
          pf = (if isin \<notin> set (map fst pf) then pf @ [(isin, new_entry r)] else pf)
      in dict_upd pf isin (update_entry fname r))"

definition merge_rows :: "pyrt \<Rightarrow> string \<Rightarrow> row list \<Rightarrow> portfolio \<Rightarrow> portfolio" where
  "merge_rows rt fname df pf = fold (merge_row rt fname) df pf"

text \<open>
  \<open>s.replace(old, '')\<close> for a non-empty \<open>old\<close>, left to right; \<open>skip\<close> counts the
  characters of a match still to be dropped.
\<close>

fun remove_sub :: "string \<Rightarrow> nat \<Rightarrow> string \<Rightarrow> string" where
  "remove_sub old skip [] = []"
| "remove_sub old skip (c # cs) =
     (if 0 < skip then remove_sub old (skip - 1) cs
      else if take (length old) (c # cs) = old then remove_sub old (length old - 1) cs
      else c # remove_sub old 0 cs)"

definition file_label :: "string \<Rightarrow> string" where
  "file_label basename = remove_sub ''.xlsx'' 0 (remove_sub ''.xls'' 0 basename)"

text \<open>
  The loop over the files. A file is its base name and its workbook. The state is the
  portfolio and the set \<open>all_months\<close>, kept as the list of its elements in the order
  they were added.
\<close>

definition set_add :: "string list \<Rightarrow> string \<Rightarrow> string list" where
  "set_add xs x = (if x \<in> set xs then xs else xs @ [x])"

definition process_file ::
  "pyrt \<Rightarrow> string \<times> workbook option \<Rightarrow> portfolio \<times> string list \<Rightarrow> portfolio \<times> string list" where
  "process_file rt f st =
     (let fname = file_label (fst f);
          all_months = set_add (snd st) fname
      in case read_portfolio_file rt (snd f) of
           None \<Rightarrow> (fst st, all_months)
         | Some df \<Rightarrow> (merge_rows rt fname df (fst st), all_months))"

definition process_files ::
  "pyrt \<Rightarrow> (string \<times> workbook option) list \<Rightarrow> portfolio \<times> string list" where
  "process_files rt files = fold (process_file rt) files ([], [])"

section \<open>Period ordering\<close>

definition month_order :: "string list" where
  "month_order = [''January'', ''February'', ''March'', ''April'', ''May'', ''June'',
     ''July'', ''August'', ''September'', ''October'', ''November'', ''December'']"

text \<open>\<open>s.split(sep)\<close> on one character; \<open>w\<close> is the part being read.\<close>

fun split_on_acc :: "char \<Rightarrow> string \<Rightarrow> string \<Rightarrow> string list" where
  "split_on_acc sep w [] = [w]"
| "split_on_acc sep w (c # cs) =
     (if c = sep then w # split_on_acc sep [] cs else split_on_acc sep (w @ [c]) cs)"

definition split_on :: "char \<Rightarrow> string \<Rightarrow> string list" where
  "split_on sep s = split_on_acc sep [] s"

text \<open>
  \<open>y.isdigit()\<close> accepts the decimal digits and, below code point 256, the three
  superscript digits; \<open>int(y)\<close> reads only the decimal digits and raises on the others.
\<close>

definition digit_chars :: string where
  "digit_chars = ''0123456789''"

definition isdigit :: "string \<Rightarrow> bool" where
  "isdigit y = (y \<noteq> [] \<and> list_all (\<lambda>c. c \<in> set (digit_chars @ [CHR 0xB2, CHR 0xB3, CHR 0xB9])) y)"

definition digit_value :: "char \<Rightarrow> int" where
  "digit_value c = int (length (takeWhile (\<lambda>d. d \<noteq> c) digit_chars))"

definition py_int :: "string \<Rightarrow> int option" where
  "py_int y = (if y \<noteq> [] \<and> list_all (\<lambda>c. c \<in> set digit_chars) y
     then Some (foldl (\<lambda>a c. 10 * a + digit_value c) 0 y) else None)"

text \<open>\<open>xs.index(x)\<close> for an \<open>x\<close> that is in \<open>xs\<close>.\<close>

definition list_index :: "'a list \<Rightarrow> 'a \<Rightarrow> int" where
  "list_index xs x = int (length (takeWhile (\<lambda>y. y \<noteq> x) xs))"

text \<open>
  \<open>sort_months_key\<close>. Unpacking \<open>m, y\<close> raises unless the split has two parts, and
  \<open>int(y)\<close> may raise; the \<open>except\<close> clause answers \<open>(9999, 99)\<close>.
\<close>

definition sort_months_key :: "string \<Rightarrow> int \<times> int" where
  "sort_months_key m_str =
     (if CHR ''_'' \<in> set m_str then
        (case split_on (CHR ''_'') m_str of
           [m, y] \<Rightarrow>
             (if isdigit y then
                (case py_int y of
                   None \<Rightarrow> (9999, 99)
                 | Some n \<Rightarrow> (n, if m \<in> set month_order then list_index month_order m else 99))
              else (9999, if m \<in> set month_order then list_index month_order m else 99))
         | _ \<Rightarrow> (9999, 99))
      else (9999, 99))"

text \<open>\<open>sorted(list(all_months), key=sort_months_key)\<close>; Python's sort is stable.\<close>

definition sorted_months :: "pyrt \<Rightarrow> string list \<Rightarrow> string list" where
  "sorted_months rt all_months = sort_key sort_months_key (set_order rt all_months)"

section \<open>Report assembly\<close>

text \<open>
  The worksheet is the grid of its cell values, row by row, \<open>None\<close> for a cell that
  was never given a value (also the covered cells of a merged range). Every row is as wide
  as the sheet: three static columns and three columns for each month.
\<close>

definition title_row :: "string list \<Rightarrow> pval list" where
  "title_row ms = PStr ''PPFAS Flexi cap Fund'' # replicate (2 + 3 * length ms) PNone"

definition headers_static :: "string list" where
  "headers_static = [''Name of the Instrument'', ''ISIN'', ''Industry/Rating'']"

definition month_header_row :: "string list \<Rightarrow> pval list" where
  "month_header_row ms = map PStr headers_static @ concat (map (\<lambda>m. [PStr m, PNone, PNone]) ms)"

definition sub_header_row :: "string list \<Rightarrow> pval list" where
  "sub_header_row ms = [PNone, PNone, PNone] @
     concat (map (\<lambda>m. [PStr ''Quantity'', PStr ''Market Value (Rs. Lakhs)'', PStr ''% Net Assets'']) ms)"

text \<open>\<open>data['Months'].get(m, {}).get(key)\<close>: the stored value, \<open>None\<close> when the month or the key is missing.\<close>

definition node :: "entry \<Rightarrow> string \<Rightarrow> (metrics \<Rightarrow> pval) \<Rightarrow> pval" where
  "node data m key = (case map_of (Months data) m of None \<Rightarrow> PNone | Some m_data \<Rightarrow> key m_data)"

text \<open>\<open>write_val\<close>: the float added to the column total, and the value put in the cell.\<close>

definition v_float :: "pyrt \<Rightarrow> pval \<Rightarrow> fl" where
  "v_float rt raw_val = (case py_float rt raw_val of Some v \<Rightarrow> v | None \<Rightarrow> Fin 0)"

definition written :: "pyrt \<Rightarrow> pval \<Rightarrow> pval" where
  "written rt raw_val = (if raw_val \<noteq> PNone then PFl (v_float rt raw_val) else PNone)"

definition month_cells :: "pyrt \<Rightarrow> entry \<Rightarrow> string \<Rightarrow> pval list" where
  "month_cells rt data m =
     [written rt (node data m Quantity), written rt (node data m MarketValue),
      written rt (node data m PctAssets)]"

definition data_row :: "pyrt \<Rightarrow> string list \<Rightarrow> string \<times> entry \<Rightarrow> pval list" where
  "data_row rt ms item =
     [Name (snd item), PStr (fst item), Rating (snd item)] @
     concat (map (month_cells rt (snd item)) ms)"

text \<open>
  \<open>column_totals\<close>: each column starts at \<open>0.0\<close> and every data row, in the order of
  the portfolio, adds its float to it.
\<close>

definition column_total :: "pyrt \<Rightarrow> portfolio \<Rightarrow> string \<Rightarrow> (metrics \<Rightarrow> pval) \<Rightarrow> fl" where
  "column_total rt pf m key =
     fold (\<lambda>item total. fadd total (v_float rt (node (snd item) m key))) pf (Fin 0)"

definition month_totals :: "pyrt \<Rightarrow> portfolio \<Rightarrow> string \<Rightarrow> pval list" where
  "month_totals rt pf m =
     [PFl (column_total rt pf m Quantity), PFl (column_total rt pf m MarketValue),
      PFl (column_total rt pf m PctAssets)]"

definition totals_row :: "pyrt \<Rightarrow> portfolio \<Rightarrow> string list \<Rightarrow> pval list" where
  "totals_row rt pf ms = [PStr ''Total'', PNone, PNone] @ concat (map (month_totals rt pf) ms)"

definition build_sheet :: "pyrt \<Rightarrow> portfolio \<Rightarrow> string list \<Rightarrow> pval list list" where
  "build_sheet rt pf ms =
     [title_row ms, month_header_row ms, sub_header_row ms] @ map (data_row rt ms) pf @
     [totals_row rt pf ms]"

text \<open>\<open>main\<close>: nothing is written when there are no files.\<close>

definition main :: "pyrt \<Rightarrow> (string \<times> workbook option) list \<Rightarrow> pval list list option" where
  "main rt files =
     (if files = [] then None
      else let st = process_files rt files
           in Some (build_sheet rt (fst st) (sorted_months rt (snd st))))"

section \<open>Reading the report back\<close>

text \<open>
  \<open>read_portfolio_data\<close> of the web application reads the saved sheet with pandas,
  twice: the data rows with \<open>skiprows=3\<close>, and the month row with \<open>skiprows=1\<close>
  and \<open>nrows=1\<close>. What pandas makes of the cells is the parameter \<open>read_excel\<close>.
\<close>

record month_record =
  rb_Quantity :: fl
  rb_Value :: fl
  rb_Pct :: fl

record holding =
  rb_Name :: pval
  rb_ISIN :: string
  rb_Rating :: string
  rb_Months :: "(pval \<times> month_record) list"

record readback =
  rb_months :: "pval list"
  rb_records :: "holding list"

text \<open>\<open>[month_row[i] for i in range(3, len(month_row), 3)]\<close>, before the test for NaN.\<close>

fun every_third :: "'a list \<Rightarrow> 'a list" where
  "every_third (x # y # z # rest) = x # every_third rest"
| "every_third (x # rest) = [x]"
| "every_third [] = []"

definition clean_meta :: "pyrt \<Rightarrow> pval \<Rightarrow> string" where
  "clean_meta rt val = (if isna val \<or> lower (py_str rt val) = ''nan'' then [] else py_str rt val)"

definition clean :: "pyrt \<Rightarrow> pval \<Rightarrow> fl" where
  "clean rt val =
     (if isna val \<or> val = PStr [] then Fin 0
      else case py_float rt val of Some v \<Rightarrow> v | None \<Rightarrow> Fin 0)"

text \<open>\<open>row[i]\<close> raises for a column that is not there.\<close>

definition cell_at :: "pval list \<Rightarrow> nat \<Rightarrow> pval option" where
  "cell_at r i = (if i < length r then Some (r ! i) else None)"

text \<open>The loop over the months of one row; \<open>None\<close> when a cell lookup raises.\<close>

fun read_months ::
  "pyrt \<Rightarrow> pval list \<Rightarrow> nat \<Rightarrow> pval list \<Rightarrow> (pval \<times> month_record) list
     \<Rightarrow> (pval \<times> month_record) list option" where
  "read_months rt r col_idx [] acc = Some acc"
| "read_months rt r col_idx (m # ms) acc =
     (case (cell_at r col_idx, cell_at r (col_idx + 1), cell_at r (col_idx + 2)) of
        (Some q, Some v, Some p) \<Rightarrow>
          read_months rt r (col_idx + 3) ms
            (dict_set acc m \<lparr>rb_Quantity = clean rt q, rb_Value = clean rt v, rb_Pct = clean rt p\<rparr>)
      | _ \<Rightarrow> None)"

text \<open>The loop over the data rows; a row with an empty first cell is passed over.\<close>

fun read_rows :: "pyrt \<Rightarrow> pval list \<Rightarrow> pval list list \<Rightarrow> holding list option" where
  "read_rows rt months [] = Some []"
| "read_rows rt months (r # rs) =
     (case cell_at r 0 of
        None \<Rightarrow> None
      | Some c0 \<Rightarrow>
          if isna c0 \<or> lower (py_str rt c0) = ''nan'' then read_rows rt months rs
          else
            (case (cell_at r 1, cell_at r 2) of
               (Some c1, Some c2) \<Rightarrow>
                 (case read_months rt r 3 months [] of
                    None \<Rightarrow> None
                  | Some ms \<Rightarrow>
                      (case read_rows rt months rs of
                         None \<Rightarrow> None
                       | Some recs \<Rightarrow>
                           Some (\<lparr>rb_Name = c0, rb_ISIN = clean_meta rt c1,
                                  rb_Rating = clean_meta rt c2, rb_Months = ms\<rparr> # recs)))
             | _ \<Rightarrow> None))"

text \<open>\<open>df_months.iloc[0]\<close> raises when the frame has no row.\<close>

definition read_portfolio_data :: "pyrt \<Rightarrow> pval list list \<Rightarrow> readback option" where
  "read_portfolio_data rt sheet =
     (let df = read_excel rt 3 None sheet;
          df_months = read_excel rt 1 (Some 1) sheet
      in case df_months of
           [] \<Rightarrow> None
         | month_row # _ \<Rightarrow>
             (let months = filter notna (every_third (drop 3 month_row))
              in case read_rows rt months df of
                   None \<Rightarrow> None
                 | Some recs \<Rightarrow> Some \<lparr>rb_months = months, rb_records = recs\<rparr>))"

text \<open>
  A sheet is read back as written when pandas returns, in both readings, every cell as
  it was saved, and a cell saved blank or with the empty text as NaN. Pandas does so for
  numbers and for the texts it leaves alone; it does not for a text that looks like a
  number or that stands for a missing value, which comes back as a number or as NaN
  depending on the other cells of its column. What it does there is left to the
  parameter \<open>read_excel\<close>.
\<close>

definition from_excel :: "pval \<Rightarrow> pval" where
  "from_excel v = (if v = PNone \<or> v = PStr [] then PFl NaN else v)"

definition read_as_written :: "pyrt \<Rightarrow> pval list list \<Rightarrow> bool" where
  "read_as_written rt sheet =
     (read_excel rt 3 None sheet = map (map from_excel) (drop 3 sheet)
      \<and> read_excel rt 1 (Some 1) sheet = map (map from_excel) (take 1 (drop 1 sheet)))"

section \<open>Notions used in the properties, and sample inputs\<close>

text \<open>
  Where a property is evaluated on a concrete input, the parameters of the runtime are
  fixed: every float prints as \<open>0.0\<close>, no text reads as a float, a set is listed in
  the order its elements were added, every Series prints as \<open>Series\<close>, and a sheet is
  read back as written.
\<close>

definition sample_rt :: pyrt where
  "sample_rt = \<lparr>float_repr = (\<lambda>r. ''0.0''), float_parse = (\<lambda>s. None), set_order = (\<lambda>xs. xs),
     series_repr = (\<lambda>vs. ''Series''),
     read_excel = (\<lambda>skiprows nrows sheet.
        map (map from_excel)
          (case nrows of None \<Rightarrow> drop skiprows sheet | Some n \<Rightarrow> take n (drop skiprows sheet)))\<rparr>"

text \<open>What the header normalizer does to one character.\<close>

definition clean_char :: "char \<Rightarrow> char" where
  "clean_char c = (if lower_char c = CHR 0x0A then CHR '' '' else lower_char c)"

text \<open>
  Sample rows of a frame: a start marker, a holding, a row without identifier, a second
  start marker that carries an identifier, a holding under two headers that are both
  renamed to \<open>Rating\<close>, before and after the renaming; and a workbook whose header
  is its first raw row.
\<close>

definition sample_start :: row where
  "sample_start = [(PStr ''Name'', PStr ''(a) Listed Stock''), (PStr ''ISIN'', PFl NaN)]"

definition sample_holding :: row where
  "sample_holding = [(PStr ''Name'', PStr ''Acme''), (PStr ''ISIN'', PStr ''INE1'')]"

definition sample_blank :: row where
  "sample_blank = [(PStr ''Name'', PStr ''Banks''), (PStr ''ISIN'', PFl NaN)]"

definition sample_second_start :: row where
  "sample_second_start = [(PStr ''Name'', PStr ''(a) listed stock''), (PStr ''ISIN'', PStr ''INE2'')]"

definition sample_two_ratings :: row where
  "sample_two_ratings = [(PStr ''Name'', PStr ''Acme''), (PStr ''ISIN'', PStr ''INE1''),
     (PStr ''Industry'', PStr ''Banks''), (PStr ''Rating'', PStr ''AAA'')]"

definition sample_rated_twice :: row where
  "sample_rated_twice = [(PStr ''Name'', PStr ''Acme''), (PStr ''ISIN'', PStr ''INE1''),
     (PStr ''Rating'', PStr ''Banks''), (PStr ''Rating'', PStr ''AAA'')]"

definition sample_wb :: "row list \<Rightarrow> workbook" where
  "sample_wb frame = \<lparr>raw_rows = [[PStr ''ISIN'', PStr ''Quantity'']], frame_at = (\<lambda>i. frame)\<rparr>"

text \<open>The month component of the key, and the position of two elements in a sequence.\<close>

definition month_part :: "string \<Rightarrow> int" where
  "month_part m = (if m \<in> set month_order then list_index month_order m else 99)"

definition comes_before :: "'a list \<Rightarrow> 'a \<Rightarrow> 'a \<Rightarrow> bool" where
  "comes_before ys a b = (\<exists>pre post. ys = pre @ a # post \<and> b \<in> set post)"

text \<open>
  What the rows of one file do to the entry of one key, and to its name and its months:
  only the rows with that key touch it.
\<close>

definition apply_rows :: "pyrt \<Rightarrow> string \<Rightarrow> string \<Rightarrow> row list \<Rightarrow> entry \<Rightarrow> entry" where
  "apply_rows rt fname k rs e =
     fold (\<lambda>r e. if row_key rt r = k then update_entry fname r e else e) rs e"

definition name_after :: "pyrt \<Rightarrow> string \<Rightarrow> row list \<Rightarrow> pval \<Rightarrow> pval" where
  "name_after rt k rs n = fold (\<lambda>r n. if row_key rt r = k then update_name r n else n) rs n"

definition months_after ::
  "pyrt \<Rightarrow> string \<Rightarrow> string \<Rightarrow> row list \<Rightarrow> (string \<times> metrics) list \<Rightarrow> (string \<times> metrics) list" where
  "months_after rt fname k rs m =
     fold (\<lambda>r m. if row_key rt r = k then dict_set m fname (row_metrics r) else m) rs m"

text \<open>
  Rows for the merge: a holding seen in January without a rating, the same holding in
  February with a rating and no name, and a row of a file that has no name column.
\<close>

definition sample_jan :: row where
  "sample_jan = [(PStr ''Name'', PStr ''Acme''), (PStr ''ISIN'', PStr ''INE1''),
     (PStr ''Rating'', PFl NaN), (PStr ''Quantity'', PFl (Fin 100))]"

definition sample_feb :: row where
  "sample_feb = [(PStr ''Name'', PFl NaN), (PStr ''ISIN'', PStr ''INE1''),
     (PStr ''Rating'', PStr ''Banks''), (PStr ''Quantity'', PFl (Fin 120))]"

definition sample_unnamed :: row where
  "sample_unnamed = [(PStr ''ISIN'', PStr ''INE1''), (PStr ''Quantity'', PFl (Fin 90))]"

text \<open>A sequence of rows from several files, each with the label of its file.\<close>

definition merge_all :: "pyrt \<Rightarrow> (string \<times> row) list \<Rightarrow> portfolio \<Rightarrow> portfolio" where
  "merge_all rt labelled pf = fold (\<lambda>fr. merge_row rt (fst fr) (snd fr)) labelled pf"

text \<open>A holding whose quantity cell is empty, and \<open>list(a_set)\<close> listing every element once.\<close>

definition sample_gap :: row where
  "sample_gap = [(PStr ''Name'', PStr ''Beta''), (PStr ''ISIN'', PStr ''INE2''),
     (PStr ''Quantity'', PFl NaN)]"

text \<open>Two files: one with a holding, one that cannot be read.\<close>

definition sample_files :: "(string \<times> workbook option) list" where
  "sample_files = [(''January_2025.xls'', Some (sample_wb [sample_start, sample_holding])),
     (''February_2025.xls'', None)]"

text \<open>The place of an element in a list, counted from 0.\<close>

definition position :: "'a list \<Rightarrow> 'a \<Rightarrow> nat" where
  "position xs x = length (takeWhile (\<lambda>y. y \<noteq> x) xs)"

definition lists_each_once :: "pyrt \<Rightarrow> bool" where
  "lists_each_once rt =
     (\<forall>xs. distinct xs \<longrightarrow> set (set_order rt xs) = set xs \<and> distinct (set_order rt xs))"

text \<open>
  What the read-back is expected to give for a merged mapping. A holding is named when
  its name is there, is not NaN, is not the empty text and is not the text \<open>nan\<close> in
  any case of letters.
  Its identifier is expected as it is and its rating as its text, the empty text when
  there is none; this leaves out the identifiers and ratings whose text is \<open>nan\<close>,
  which the read-back turns into the empty text. A stored metric comes back as its float,
  with \<open>0.0\<close> for every value that is missing, not a number, or NaN. The total row
  comes back as one more record.
\<close>

definition named :: "pyrt \<Rightarrow> pval \<Rightarrow> bool" where
  "named rt n = (notna n \<and> n \<noteq> PStr [] \<and> lower (py_str rt n) \<noteq> ''nan'')"

definition zero_coerced :: "pyrt \<Rightarrow> pval \<Rightarrow> fl" where
  "zero_coerced rt raw = (case py_float rt raw of Some (Fin x) \<Rightarrow> Fin x | _ \<Rightarrow> Fin 0)"

definition nan_to_zero :: "fl \<Rightarrow> fl" where
  "nan_to_zero v = (case v of Fin x \<Rightarrow> Fin x | NaN \<Rightarrow> Fin 0)"

definition expected_months :: "pyrt \<Rightarrow> string list \<Rightarrow> entry \<Rightarrow> (pval \<times> month_record) list" where
  "expected_months rt ms data =
     map (\<lambda>m. (PStr m, \<lparr>rb_Quantity = zero_coerced rt (node data m Quantity),
                          rb_Value = zero_coerced rt (node data m MarketValue),
                          rb_Pct = zero_coerced rt (node data m PctAssets)\<rparr>)) ms"

definition rating_text :: "pyrt \<Rightarrow> pval \<Rightarrow> string" where
  "rating_text rt v = (if notna v then py_str rt v else [])"

definition plain_texts :: "pyrt \<Rightarrow> string \<times> entry \<Rightarrow> bool" where
  "plain_texts rt item =
     (lower (fst item) \<noteq> ''nan''
      \<and> (isna (Rating (snd item)) \<or> lower (py_str rt (Rating (snd item))) \<noteq> ''nan''))"

definition expected_record :: "pyrt \<Rightarrow> string list \<Rightarrow> string \<times> entry \<Rightarrow> holding" where
  "expected_record rt ms item =
     \<lparr>rb_Name = Name (snd item), rb_ISIN = fst item,
      rb_Rating = rating_text rt (Rating (snd item)),
      rb_Months = expected_months rt ms (snd item)\<rparr>"

definition total_record :: "pyrt \<Rightarrow> portfolio \<Rightarrow> string list \<Rightarrow> holding" where
  "total_record rt pf ms =
     \<lparr>rb_Name = PStr ''Total'', rb_ISIN = [], rb_Rating = [],
      rb_Months = map (\<lambda>m. (PStr m, \<lparr>rb_Quantity = nan_to_zero (column_total rt pf m Quantity),
                                      rb_Value = nan_to_zero (column_total rt pf m MarketValue),
                                      rb_Pct = nan_to_zero (column_total rt pf m PctAssets)\<rparr>)) ms\<rparr>"

text \<open>A merged mapping with one holding and one month.\<close>

definition sample_portfolio :: portfolio where
  "sample_portfolio = [(''INE1'', \<lparr>Name = PStr ''Acme'', Rating = PNone,
     Months = [(''January_2025'', \<lparr>Quantity = PFl (Fin 100), MarketValue = PFl NaN, PctAssets = PNone\<rparr>)]\<rparr>)]"

section \<open>Properties of the header normalizer\<close>

lemmas string_defs = clean_header_def strip_def replace_nl_def lower_def lower_char_def
  upper_chars_def lower_chars_def is_space_def space_chars_def py_split_def

lemma normalize_header_first_rule:
  "normalize_header (PStr header) =
     (case first_rule (clean_header header) of Some rule \<Rightarrow> snd rule | None \<Rightarrow> header)"
  by (simp add: first_rule_def header_rules_def Let_def)

lemma upper_distinct: "distinct upper_chars"
  by (simp add: upper_chars_def)

lemma upper_lower_length: "length upper_chars = length lower_chars"
  by (simp add: upper_chars_def lower_chars_def)

lemma lower_not_upper: "list_all (\<lambda>c. c \<notin> set upper_chars) lower_chars"
  by (simp add: upper_chars_def lower_chars_def)

lemma lower_char_pair:
  assumes "(c, d) \<in> set (zip upper_chars lower_chars)"
  shows "lower_char c = d" and "lower_char d = d"
proof -
  have fst: "map fst (zip upper_chars lower_chars) = upper_chars"
    by (simp add: upper_lower_length)
  have "map_of (zip upper_chars lower_chars) c = Some d"
    using assms upper_distinct by (simp add: fst)
  then show "lower_char c = d" by (simp add: lower_char_def)
  have "d \<in> set lower_chars" using assms by (rule set_zip_rightD)
  then have "d \<notin> set upper_chars" using lower_not_upper by (simp add: list_all_iff)
  then have "map_of (zip upper_chars lower_chars) d = None"
    using fst by (metis map_of_eq_None_iff set_map)
  then show "lower_char d = d" by (simp add: lower_char_def)
qed

lemma lower_char_same_letter: "same_letter c d \<Longrightarrow> lower_char c = lower_char d"
  unfolding same_letter_def using lower_char_pair by metis

lemma lower_char_space: "list_all (\<lambda>c. lower_char c = c) space_chars"
  by (simp add: space_chars_def lower_char_def upper_chars_def lower_chars_def)

lemma clean_char_space: "is_space c \<Longrightarrow> is_space (clean_char c)"
proof -
  assume a: "is_space c"
  then have "lower_char c = c" using lower_char_space by (simp add: list_all_iff is_space_def)
  moreover have "is_space (CHR '' '')" by (simp add: is_space_def space_chars_def)
  ultimately show ?thesis using a by (simp add: clean_char_def)
qed

lemma clean_char_variant: "char_variant c d \<Longrightarrow> clean_char c = clean_char d"
  unfolding char_variant_def
proof (elim disjE)
  assume "same_letter c d" then show ?thesis by (simp add: clean_char_def lower_char_same_letter)
next
  have nl: "lower_char (CHR 0x0A) = CHR 0x0A" and sp: "lower_char (CHR '' '') = CHR '' ''"
    using lower_char_space by (simp_all add: space_chars_def)
  assume "same_break c d" then show ?thesis 
    unfolding same_break_def clean_char_def using nl sp by auto
qed

lemma strip_pad:
  assumes "list_all is_space a" "list_all is_space b"
  shows "strip (a @ x @ b) = strip x"
proof -
  have 1: "dropWhile is_space (a @ x @ b) = dropWhile is_space (x @ b)"
    using assms(1) by (induction a) auto
  have 2: "\<And>y. dropWhile is_space (rev b @ y) = dropWhile is_space y"
    by (rule dropWhile_append2) (use assms(2) in \<open>simp add: list_all_iff\<close>)
  show ?thesis
  proof (cases "list_all is_space x")
    case True
    then have e: "dropWhile is_space (x @ b) = []" "dropWhile is_space x = []"
      using assms(2) by (auto simp: list_all_iff)
    show ?thesis unfolding strip_def 1 e by simp
  next
    case False
    then have e: "dropWhile is_space (x @ b) = dropWhile is_space x @ b"
      by (auto simp: list_all_iff)
    show ?thesis unfolding strip_def 1 e by (simp add: 2)
  qed
qed

lemma clean_header_map: "clean_header s = strip (map clean_char s)"
  by (simp add: clean_header_def replace_nl_def lower_def clean_char_def [abs_def] comp_def)

lemma first_rule_canonical:
  "first_rule h = Some rule \<Longrightarrow> snd rule \<in> set canonical_fields"
proof -
  assume "first_rule h = Some rule"
  then have "rule \<in> set header_rules"
    unfolding first_rule_def by (auto simp: find_Some_iff)
  then show ?thesis by (auto simp: header_rules_def canonical_fields_def)
qed

text \<open>
  Claim C5, as amended. A header text that some rule recognises keeps its canonical field
  in every variant that differs from it only in the case of letters, in line breaks
  standing in the place of blanks, or in whitespace before and after: with \<open>a\<close>,
  \<open>b\<close>, \<open>a'\<close>, \<open>b'\<close> whitespace and \<open>c'\<close> a character-wise variant of
  \<open>c\<close>, both \<open>a @ c @ b\<close> and \<open>a' @ c' @ b'\<close> are normalised to the field of
  the first rule that matches, one of the six canonical fields.
\<close>

theorem normalize_header_variants:
  assumes "list_all is_space a" "list_all is_space b"
    and "list_all is_space a'" "list_all is_space b'"
    and "list_all2 char_variant c c'"
    and "recognized (a @ c @ b)"
  shows "normalize_header (PStr (a' @ c' @ b')) = normalize_header (PStr (a @ c @ b))
    \<and> (\<exists>rule. first_rule (clean_header (a @ c @ b)) = Some rule
          \<and> first_rule (clean_header (a' @ c' @ b')) = Some rule
          \<and> normalize_header (PStr (a @ c @ b)) = snd rule
          \<and> normalize_header (PStr (a' @ c' @ b')) = snd rule
          \<and> snd rule \<in> set canonical_fields)"
proof -
  have sp: "\<And>w. list_all is_space w \<Longrightarrow> list_all is_space (map clean_char w)"
    by (simp add: list_all_iff clean_char_space)
  have "map clean_char c = map clean_char c'"
    using assms(5) by (induction rule: list_all2_induct) (simp_all add: clean_char_variant)
  then have same: "clean_header (a' @ c' @ b') = clean_header (a @ c @ b)"
    using assms(1-4) by (simp add: clean_header_map strip_pad sp)
  from assms(6) obtain rule where rule: "first_rule (clean_header (a @ c @ b)) = Some rule"
    unfolding recognized_def by blast
  have n: "normalize_header (PStr (a @ c @ b)) = snd rule"
    "normalize_header (PStr (a' @ c' @ b')) = snd rule"
    unfolding normalize_header_first_rule same rule by simp_all
  show ?thesis
    using n rule same first_rule_canonical [OF rule] by auto
qed

theorem normalize_header_variants_witness:
  "list_all is_space ''  '' \<and> list_all is_space [CHR 0x0A]
   \<and> list_all2 char_variant ''Isin No'' (''ISIN'' @ [CHR 0x0A] @ ''no'')
   \<and> recognized (''  '' @ ''Isin No'' @ [])
   \<and> normalize_header (PStr ([] @ (''ISIN'' @ [CHR 0x0A] @ ''no'') @ [CHR 0x0A]))
     = normalize_header (PStr (''  '' @ ''Isin No'' @ []))
   \<and> normalize_header (PStr (''  '' @ ''Isin No'' @ [])) = ''ISIN''"
proof -
  have a: "list_all is_space ''  ''" and b: "list_all is_space []"
    and b': "list_all is_space [CHR 0x0A]"
    by code_simp+
  have v: "list_all2 char_variant ''Isin No'' (''ISIN'' @ [CHR 0x0A] @ ''no'')"
    by code_simp
  have r: "recognized (''  '' @ ''Isin No'' @ [])"
    by code_simp
  have f: "normalize_header (PStr (''  '' @ ''Isin No'' @ [])) = ''ISIN''"
    by code_simp
  show ?thesis
    using a b' v r f normalize_header_variants [OF a b b b' v r] by (intro conjI) blast+
qed

text \<open>
  Claim C5 as stated fails: a line break put beside the blank of \<open>Market Value\<close>
  leaves two blanks after the cleaning, no rule matches any more, and the variant is
  returned as it came instead of the field \<open>MarketValue\<close>.
\<close>

theorem normalize_header_variants_counterexample:
  "recognized ''Market Value''
   \<and> normalize_header (PStr ''Market Value'') = ''MarketValue''
   \<and> \<not> recognized (''Market '' @ [CHR 0x0A] @ ''Value'')
   \<and> normalize_header (PStr (''Market '' @ [CHR 0x0A] @ ''Value'')) = ''Market '' @ [CHR 0x0A] @ ''Value''"
  by code_simp

lemma map_of_inert:
  assumes "l \<noteq> k"
  shows "map_of (pre @ (l, v) # post) k = map_of (pre @ (l, v') # post) k"
  using assms by (induction pre) auto

lemma rename_label_unrecognized:
  assumes "\<not> recognized header" "header \<notin> set canonical_fields"
  shows "rename_label (PStr header) = PStr header"
proof -
  from assms(1) have "first_rule (clean_header header) = None"
    unfolding recognized_def by blast
  then have "normalize_header (PStr header) = header"
    by (simp only: normalize_header_first_rule option.case)
  then show ?thesis using assms(2) by (simp add: rename_label_def)
qed

lemma field_inert:
  assumes "\<not> recognized header" "header \<notin> set canonical_fields" "f \<in> set canonical_fields"
  shows "field (rename_columns (pre @ (PStr header, v) # post)) f
       = field (rename_columns (pre @ (PStr header, v') # post)) f"
proof -
  have ne: "PStr header \<noteq> PStr f" using assms(2,3) by auto
  have split: "\<And>w. rename_columns (pre @ (PStr header, w) # post)
      = rename_columns pre @ (PStr header, w) # rename_columns post"
    using rename_label_unrecognized [OF assms(1,2)] by (simp add: rename_columns_def)
  show ?thesis
    unfolding field_def row_get_def split
    by (simp only: map_of_inert [OF ne, of "rename_columns pre" v "rename_columns post" v'])
qed

text \<open>
  Claim C6, as amended. The first rule of the fixed order that matches decides the field.
  A header text that matches none of the six rules and is not itself one of the canonical
  names is left as it is by the renaming, and the cell under it never becomes a field of
  an extracted record: no lookup of a canonical field sees it, and the merge of the row is
  the same whatever the cell holds.
\<close>

theorem unrecognized_header_inert:
  "normalize_header (PStr header) =
     (case first_rule (clean_header header) of Some rule \<Rightarrow> snd rule | None \<Rightarrow> header)
   \<and> (\<not> recognized header \<and> header \<notin> set canonical_fields \<longrightarrow>
        rename_label (PStr header) = PStr header
      \<and> (\<forall>f \<in> set canonical_fields.
            field (rename_columns (pre @ (PStr header, v) # post)) f
          = field (rename_columns (pre @ (PStr header, v') # post)) f)
      \<and> merge_row rt fname (rename_columns (pre @ (PStr header, v) # post)) pf
        = merge_row rt fname (rename_columns (pre @ (PStr header, v') # post)) pf)"
proof (intro conjI impI ballI)
  show "normalize_header (PStr header) =
     (case first_rule (clean_header header) of Some rule \<Rightarrow> snd rule | None \<Rightarrow> header)"
    by (rule normalize_header_first_rule)
next
  assume a: "\<not> recognized header \<and> header \<notin> set canonical_fields"
  then show "rename_label (PStr header) = PStr header"
    by (simp add: rename_label_unrecognized)
next
  fix f assume "\<not> recognized header \<and> header \<notin> set canonical_fields" "f \<in> set canonical_fields"
  then show "field (rename_columns (pre @ (PStr header, v) # post)) f
          = field (rename_columns (pre @ (PStr header, v') # post)) f"
    by (simp add: field_inert)
next
  assume a: "\<not> recognized header \<and> header \<notin> set canonical_fields"
  let ?r = "rename_columns (pre @ (PStr header, v) # post)"
  let ?r' = "rename_columns (pre @ (PStr header, v') # post)"
  have f: "\<And>f. f \<in> set canonical_fields \<Longrightarrow> field ?r f = field ?r' f"
    using a by (simp add: field_inert)
  have fs: "field ?r ''ISIN'' = field ?r' ''ISIN''" "field ?r ''Name'' = field ?r' ''Name''"
    "field ?r ''Rating'' = field ?r' ''Rating''" "field ?r ''Quantity'' = field ?r' ''Quantity''"
    "field ?r ''MarketValue'' = field ?r' ''MarketValue''"
    "field ?r ''PctAssets'' = field ?r' ''PctAssets''"
    by (rule f, simp add: canonical_fields_def)+
  have k: "row_key rt ?r = row_key rt ?r'"
    unfolding row_key_def by (simp only: fs)
  have n: "new_entry ?r = new_entry ?r'"
    unfolding new_entry_def by (simp only: fs)
  have u: "update_entry fname ?r = update_entry fname ?r'"
    by (rule ext) (simp only: update_entry_def update_name_def row_metrics_def fs)
  show "merge_row rt fname ?r pf = merge_row rt fname ?r' pf"
    unfolding merge_row_def by (simp only: k n u)
qed

theorem unrecognized_header_inert_witness:
  "\<not> recognized ''Remarks'' \<and> ''Remarks'' \<notin> set canonical_fields
   \<and> rename_label (PStr ''Remarks'') = PStr ''Remarks''
   \<and> field (rename_columns ([(PStr ''ISIN'', PStr ''INE1'')] @ (PStr ''Remarks'', PStr ''a'') # [])) ''ISIN''
     = field (rename_columns ([(PStr ''ISIN'', PStr ''INE1'')] @ (PStr ''Remarks'', PStr ''b'') # [])) ''ISIN''"
proof -
  have h: "\<not> recognized ''Remarks'' \<and> ''Remarks'' \<notin> set canonical_fields"
    by (simp add: recognized_def first_rule_def header_rules_def canonical_fields_def string_defs)
  have i: "''ISIN'' \<in> set canonical_fields" by (simp add: canonical_fields_def)
  show ?thesis
    using h i unrecognized_header_inert [of "''Remarks''" "[(PStr ''ISIN'', PStr ''INE1'')]" "PStr ''a''" "[]" "PStr ''b''"]
    by blast
qed



text \<open>
  Claim C6 as stated fails twice. The header \<open>Name\<close> matches none of the rules, yet
  it is returned unchanged, found among the canonical names, and its cell is read as the
  name of the holding. And the cell of an unrecognised column is read when the markers are
  searched in a row without a name: the same row ends the section with \<open>Total\<close> in the
  column \<open>Remarks\<close> and is captured with another text there.
\<close>

theorem unrecognized_header_counterexample:
  "\<not> recognized ''Name''
   \<and> rename_label (PStr ''Name'') = PStr ''Name''
   \<and> new_entry (rename_columns [(PStr ''Name'', PStr ''Acme''), (PStr ''ISIN'', PStr ''INE1'')])
       = \<lparr>Name = PStr ''Acme'', Rating = PNone, Months = []\<rparr>
   \<and> \<not> recognized ''Remarks''
   \<and> capture sample_rt False (map rename_columns
       [[(PStr ''Name of the Instrument'', PStr ''(a) Listed on Stock Exchange''),
         (PStr ''ISIN'', PFl NaN), (PStr ''Remarks'', PFl NaN)],
        [(PStr ''Name of the Instrument'', PFl NaN), (PStr ''ISIN'', PStr ''INE1''),
         (PStr ''Remarks'', PStr ''Total'')]]) = []
   \<and> capture sample_rt False (map rename_columns
       [[(PStr ''Name of the Instrument'', PStr ''(a) Listed on Stock Exchange''),
         (PStr ''ISIN'', PFl NaN), (PStr ''Remarks'', PFl NaN)],
        [(PStr ''Name of the Instrument'', PFl NaN), (PStr ''ISIN'', PStr ''INE1''),
         (PStr ''Remarks'', PStr ''held'')]])
     = [[(PStr ''Name'', PFl NaN), (PStr ''ISIN'', PStr ''INE1''), (PStr ''Remarks'', PStr ''held'')]]"
  by code_simp

section \<open>Properties of the section extractor\<close>

lemma capture_subset:
  "r \<in> set (capture rt c rs) \<Longrightarrow> has_isin rt r \<and> r \<in> set rs"
  by (induction rs arbitrary: c) (auto split: if_splits)

lemma capture_seeking:
  "list_all (\<lambda>r. \<not> is_start (content_lower rt r)) pre \<Longrightarrow>
   capture rt False (pre @ rest) = capture rt False rest"
  by (induction pre) auto

lemma capture_unterminated:
  "list_all (\<lambda>r. \<not> is_stop (content_lower rt r)) post \<Longrightarrow>
   capture rt True post = filter (\<lambda>r. has_isin rt r \<and> \<not> is_start (content_lower rt r)) post"
  by (induction post) auto

lemma unique_cells_under: "unique_labels r \<Longrightarrow> length (cells_under r name) \<le> 1"
  unfolding unique_labels_def cells_under_def
proof (induction r)
  case Nil
  then show ?case by simp
next
  case (Cons lv r)
  show ?case
  proof (cases "fst lv = PStr name")
    case True
    then have "filter (\<lambda>lv. fst lv = PStr name) r = []"
      using Cons.prems by (force simp: filter_empty_conv)
    then show ?thesis using True by simp
  next
    case False
    then show ?thesis using Cons by simp
  qed
qed

lemma scan_no_raise: "list_all unique_labels rs \<Longrightarrow> \<not> scan_raises rt c rs"
proof (induction rs arbitrary: c)
  case Nil
  then show ?case by simp
next
  case (Cons r rs)
  then have "\<not> 1 < length (cells_under r ''ISIN'')"
    using unique_cells_under [of r "''ISIN''"] by simp
  then show ?case using Cons by simp
qed

lemma frame_no_raise: "list_all unique_labels rs \<Longrightarrow> \<not> frame_raises (capture rt c rs)"
  using capture_subset [of _ rt c rs] by (auto simp: frame_raises_def list_all_iff list_ex_iff)

text \<open>
  Claim C7. Every row the extractor returns has an identifier: the \<open>ISIN\<close> cell is
  there and is not NaN, and the merge key made from it is not empty. A row of the captured
  section that is no marker and whose \<open>ISIN\<close> cell is missing, NaN or blank is passed
  over: the scan goes on with the next row as if it were not there.
\<close>

theorem extractor_identifier_nonempty:
  "(read_portfolio_file rt file = Some rows \<and> r \<in> set rows \<longrightarrow>
      notna (field r ''ISIN'') \<and> row_key rt r \<noteq> [])
   \<and> (\<not> is_start (content_lower rt r') \<and> \<not> is_stop (content_lower rt r')
        \<and> (field r' ''ISIN'' = PNone \<or> field r' ''ISIN'' = PFl NaN
            \<or> (\<exists>s. field r' ''ISIN'' = PStr s \<and> strip s = [])) \<longrightarrow>
      capture rt True (r' # rs) = capture rt True rs)"
proof (rule conjI; rule impI)
  assume a: "read_portfolio_file rt file = Some rows \<and> r \<in> set rows"
  then have "\<exists>frame. rows = capture rt False frame"
    by (auto simp: read_portfolio_file_def Let_def split: option.splits if_splits)
  with a have "has_isin rt r" using capture_subset by blast
  then show "notna (field r ''ISIN'') \<and> row_key rt r \<noteq> []"
    by (simp add: has_isin_def row_key_def Let_def)
next
  assume a: "\<not> is_start (content_lower rt r') \<and> \<not> is_stop (content_lower rt r')
        \<and> (field r' ''ISIN'' = PNone \<or> field r' ''ISIN'' = PFl NaN
            \<or> (\<exists>s. field r' ''ISIN'' = PStr s \<and> strip s = []))"
  then have "\<not> has_isin rt r'"
    by (auto simp: has_isin_def)
  with a show "capture rt True (r' # rs) = capture rt True rs" by simp
qed

lemma sample_renamed:
  "rename_columns sample_start = sample_start" "rename_columns sample_holding = sample_holding"
  "rename_columns sample_blank = sample_blank"
  "rename_columns sample_second_start = sample_second_start"
  by code_simp+

lemma sample_header: "find_header sample_rt [[PStr ''ISIN'', PStr ''Quantity'']] 0 = Some 0"
  by code_simp

lemma sample_read:
  "read_portfolio_file sample_rt (Some (sample_wb [sample_start, sample_holding])) = Some [sample_holding]"
proof -
  have w: "raw_rows (sample_wb [sample_start, sample_holding]) = [[PStr ''ISIN'', PStr ''Quantity'']]"
    "map rename_columns (frame_at (sample_wb [sample_start, sample_holding]) 0)
      = [sample_start, sample_holding]"
    by (simp_all add: sample_wb_def sample_renamed)
  have c: "capture sample_rt False [sample_start, sample_holding] = [sample_holding]"
    by code_simp
  have n: "\<not> scan_raises sample_rt False [sample_start, sample_holding]"
    "\<not> frame_raises [sample_holding]"
    by code_simp+
  show ?thesis
    by (simp only: read_portfolio_file_def option.case Let_def w sample_header c n simp_thms if_False)
qed

theorem extractor_identifier_nonempty_witness:
  "read_portfolio_file sample_rt (Some (sample_wb [sample_start, sample_blank, sample_holding]))
     = Some [sample_holding]
   \<and> notna (field sample_holding ''ISIN'') \<and> row_key sample_rt sample_holding \<noteq> []
   \<and> field sample_blank ''ISIN'' = PFl NaN
   \<and> capture sample_rt True (sample_blank # [sample_holding]) = capture sample_rt True [sample_holding]"
proof -
  let ?file = "Some (sample_wb [sample_start, sample_blank, sample_holding])"
  have 0: "find_header sample_rt [[PStr ''ISIN'', PStr ''Quantity'']] 0 = Some 0" by code_simp
  have c: "capture sample_rt False [sample_start, sample_blank, sample_holding] = [sample_holding]"
    by code_simp
  have w: "raw_rows (sample_wb [sample_start, sample_blank, sample_holding])
      = [[PStr ''ISIN'', PStr ''Quantity'']]"
    "map rename_columns (frame_at (sample_wb [sample_start, sample_blank, sample_holding]) 0)
      = [sample_start, sample_blank, sample_holding]"
    by (simp_all add: sample_wb_def sample_renamed)
  have n: "\<not> scan_raises sample_rt False [sample_start, sample_blank, sample_holding]"
    "\<not> frame_raises [sample_holding]"
    by code_simp+
  have 1: "read_portfolio_file sample_rt ?file = Some [sample_holding]"
    by (simp only: read_portfolio_file_def option.case Let_def w 0 c n simp_thms if_False)
  have 2: "sample_holding \<in> set [sample_holding]" by simp
  have 3: "\<not> is_start (content_lower sample_rt sample_blank)"
    "\<not> is_stop (content_lower sample_rt sample_blank)"
    "field sample_blank ''ISIN'' = PFl NaN" by code_simp+
  show ?thesis
    using 1 2 3 extractor_identifier_nonempty
      [of sample_rt ?file "[sample_holding]" sample_holding sample_blank "[sample_holding]"]
    by blast
qed

text \<open>
  Claim C8, as amended. When the header row is found, no row of the frame has a label
  twice after the renaming, the first start marker is the row \<open>s\<close>, and no later
  row carries a stop marker, the file is accepted and the result is every later row that
  has an identifier and is not itself a start-marker row, through the end of the frame.
\<close>

theorem unterminated_section_captured:
  assumes "find_header rt (raw_rows wb) 0 = Some i"
    and "map rename_columns (frame_at wb i) = pre @ s # post"
    and "list_all unique_labels (pre @ s # post)"
    and "list_all (\<lambda>r. \<not> is_start (content_lower rt r)) pre"
    and "is_start (content_lower rt s)"
    and "list_all (\<lambda>r. \<not> is_stop (content_lower rt r)) post"
  shows "read_portfolio_file rt (Some wb)
     = Some (filter (\<lambda>r. has_isin rt r \<and> \<not> is_start (content_lower rt r)) post)"
proof -
  have "capture rt False (pre @ s # post) = capture rt False (s # post)"
    using assms(4) by (rule capture_seeking)
  also have "\<dots> = capture rt True post" using assms(5) by simp
  also have "\<dots> = filter (\<lambda>r. has_isin rt r \<and> \<not> is_start (content_lower rt r)) post"
    using assms(6) by (rule capture_unterminated)
  finally have c: "capture rt False (pre @ s # post)
      = filter (\<lambda>r. has_isin rt r \<and> \<not> is_start (content_lower rt r)) post" .
  have n: "\<not> scan_raises rt False (pre @ s # post)"
    "\<not> frame_raises (capture rt False (pre @ s # post))"
    using assms(3) by (rule scan_no_raise, rule frame_no_raise)
  show ?thesis
    unfolding read_portfolio_file_def using n
    by (simp only: option.case assms(1,2) Let_def simp_thms if_False c)
qed

theorem unterminated_section_captured_witness:
  "find_header sample_rt (raw_rows (sample_wb [sample_blank, sample_start, sample_holding, sample_blank])) 0 = Some 0
   \<and> map rename_columns (frame_at (sample_wb [sample_blank, sample_start, sample_holding, sample_blank]) 0)
      = [sample_blank] @ sample_start # [sample_holding, sample_blank]
   \<and> list_all unique_labels ([sample_blank] @ sample_start # [sample_holding, sample_blank])
   \<and> read_portfolio_file sample_rt (Some (sample_wb [sample_blank, sample_start, sample_holding, sample_blank]))
      = Some [sample_holding]"
proof -
  let ?wb = "sample_wb [sample_blank, sample_start, sample_holding, sample_blank]"
  let ?pre = "[sample_blank]" and ?post = "[sample_holding, sample_blank]"
  have 0: "find_header sample_rt [[PStr ''ISIN'', PStr ''Quantity'']] 0 = Some 0" by code_simp
  then have 1: "find_header sample_rt (raw_rows ?wb) 0 = Some 0" by (simp add: sample_wb_def)
  have 2: "map rename_columns (frame_at ?wb 0) = ?pre @ sample_start # ?post"
    by (simp add: sample_wb_def sample_renamed)
  have 3: "list_all unique_labels (?pre @ sample_start # ?post)" by code_simp
  have 4: "list_all (\<lambda>r. \<not> is_start (content_lower sample_rt r)) ?pre" by code_simp
  have 5: "is_start (content_lower sample_rt sample_start)" by code_simp
  have 6: "list_all (\<lambda>r. \<not> is_stop (content_lower sample_rt r)) ?post" by code_simp
  have 7: "filter (\<lambda>r. has_isin sample_rt r \<and> \<not> is_start (content_lower sample_rt r)) ?post
     = [sample_holding]" by code_simp
  show ?thesis
    using 1 2 3 unterminated_section_captured [OF 1 2 3 4 5 6] unfolding 7 by (intro conjI)
qed

text \<open>
  Claim C8 as stated fails twice. A later row that matches the start marker again and has
  an identifier is not captured: the scan passes over every start-marker row, so of the
  two rows with an identifier after the first marker only one is returned. And a file in
  which the headers \<open>Industry\<close> and \<open>Rating\<close> are both renamed to \<open>Rating\<close> is
  not accepted, although its section is unterminated: building the frame of the captured
  rows raises, and the \<open>except\<close> clause skips the file.
\<close>

theorem unterminated_section_counterexample:
  "find_header sample_rt (raw_rows (sample_wb [sample_start, sample_second_start, sample_holding])) 0 = Some 0
   \<and> map rename_columns (frame_at (sample_wb [sample_start, sample_second_start, sample_holding]) 0)
        = [sample_start, sample_second_start, sample_holding]
   \<and> is_start (content_lower sample_rt sample_start)
   \<and> list_all (\<lambda>r. \<not> is_stop (content_lower sample_rt r)) [sample_second_start, sample_holding]
   \<and> filter (has_isin sample_rt) [sample_second_start, sample_holding]
        = [sample_second_start, sample_holding]
   \<and> read_portfolio_file sample_rt (Some (sample_wb [sample_start, sample_second_start, sample_holding]))
        = Some [sample_holding]
   \<and> map rename_columns [sample_start, sample_two_ratings] = [sample_start, sample_rated_twice]
   \<and> list_all (\<lambda>r. \<not> is_stop (content_lower sample_rt r)) [sample_rated_twice]
   \<and> has_isin sample_rt sample_rated_twice
   \<and> read_portfolio_file sample_rt (Some (sample_wb [sample_start, sample_two_ratings])) = None"
proof -
  let ?wb = "sample_wb [sample_start, sample_second_start, sample_holding]"
  let ?wb2 = "sample_wb [sample_start, sample_two_ratings]"
  have 0: "find_header sample_rt [[PStr ''ISIN'', PStr ''Quantity'']] 0 = Some 0" by code_simp
  then have 1: "find_header sample_rt (raw_rows ?wb) 0 = Some 0"
    and h2: "find_header sample_rt (raw_rows ?wb2) 0 = Some 0" by (simp_all add: sample_wb_def)
  have 2: "map rename_columns (frame_at ?wb 0) = [sample_start, sample_second_start, sample_holding]"
    by (simp add: sample_wb_def sample_renamed)
  have 3: "is_start (content_lower sample_rt sample_start)" by code_simp
  have 4: "list_all (\<lambda>r. \<not> is_stop (content_lower sample_rt r)) [sample_second_start, sample_holding]"
    by code_simp
  have 5: "filter (has_isin sample_rt) [sample_second_start, sample_holding]
        = [sample_second_start, sample_holding]" by code_simp
  have c: "capture sample_rt False [sample_start, sample_second_start, sample_holding] = [sample_holding]"
    by code_simp
  have n: "\<not> scan_raises sample_rt False [sample_start, sample_second_start, sample_holding]"
    "\<not> frame_raises [sample_holding]"
    by code_simp+
  have 6: "read_portfolio_file sample_rt (Some ?wb) = Some [sample_holding]"
    by (simp only: read_portfolio_file_def option.case Let_def 1 2 c n simp_thms if_False)
  have t: "rename_columns sample_two_ratings = sample_rated_twice" by code_simp
  have 7: "map rename_columns [sample_start, sample_two_ratings] = [sample_start, sample_rated_twice]"
    by (simp only: list.map t sample_renamed)
  have 8: "list_all (\<lambda>r. \<not> is_stop (content_lower sample_rt r)) [sample_rated_twice]"
    "has_isin sample_rt sample_rated_twice"
    by code_simp+
  have "frame_at ?wb2 0 = [sample_start, sample_two_ratings]" by (simp add: sample_wb_def)
  then have f: "map rename_columns (frame_at ?wb2 0) = [sample_start, sample_rated_twice]"
    by (simp only: 7)
  have r: "frame_raises (capture sample_rt False [sample_start, sample_rated_twice])"
    by code_simp
  have 9: "read_portfolio_file sample_rt (Some ?wb2) = None"
    by (simp only: read_portfolio_file_def option.case Let_def h2 f r simp_thms if_True)
  show ?thesis using 1 2 3 4 5 6 7 8 9 by (intro conjI)
qed

section \<open>Properties of the period ordering\<close>

lemma split_on_acc_no_sep:
  "sep \<notin> set s \<Longrightarrow> split_on_acc sep w s = [w @ s]"
  by (induction s arbitrary: w) auto

lemma py_int_isdigit: "py_int y = Some n \<Longrightarrow> isdigit y"
  by (auto simp: py_int_def isdigit_def list_all_iff split: if_splits)

lemma sort_key_before:
  "sorted (map k ys) \<Longrightarrow> a \<in> set ys \<Longrightarrow> b \<in> set ys \<Longrightarrow> k a < k b \<Longrightarrow> comes_before ys a b"
proof (induction ys)
  case Nil
  then show ?case by simp
next
  case (Cons y ys)
  show ?case
  proof (cases "a = y")
    case True
    with Cons.prems have "b \<in> set ys" by auto
    then have "y # ys = [] @ a # ys \<and> b \<in> set ys" using True by simp
    then show ?thesis unfolding comes_before_def by blast
  next
    case False
    with Cons.prems have a: "a \<in> set ys" by simp
    have "b \<noteq> y"
    proof
      assume "b = y"
      then have "k b \<le> k a" using Cons.prems(1) a by auto
      with Cons.prems(4) show False by simp
    qed
    with Cons.prems have b: "b \<in> set ys" by simp
    have "comes_before ys a b" using Cons.IH Cons.prems(1,4) a b by simp
    then obtain pre post where "ys = pre @ a # post" "b \<in> set post"
      unfolding comes_before_def by blast
    then have "y # ys = (y # pre) @ a # post \<and> b \<in> set post" by simp
    then show ?thesis unfolding comes_before_def by blast
  qed
qed

lemma sample_keys:
  "sort_months_key ''January_2025'' = (2025, 0)"
  "sort_months_key ''March_2025'' = (2025, 2)"
  "sort_months_key ''Feb_Bad'' = (9999, 99)"
  by code_simp+

lemma sample_order:
  assumes "set xs = {''March_2025'', ''Feb_Bad'', ''January_2025''}" "distinct xs"
  shows "sort_key sort_months_key xs = [''January_2025'', ''March_2025'', ''Feb_Bad'']"
proof -
  let ?k = sort_months_key
  let ?ys = "sort_key ?k xs" and ?zs = "[''January_2025'', ''March_2025'', ''Feb_Bad'']"
  have inj: "inj_on ?k (set ?ys \<union> set ?zs)"
    by (auto simp: inj_on_def assms(1) sample_keys)
  have s: "set ?ys = set ?zs" using assms(1) by auto
  have "map ?k ?ys = map ?k ?zs"
  proof (rule sorted_distinct_set_unique)
    show "sorted (map ?k ?ys)" by simp
    show "distinct (map ?k ?ys)"
      using assms(2) inj by (simp add: distinct_map inj_on_Un)
    show "sorted (map ?k ?zs)" by (simp add: sample_keys)
    show "distinct (map ?k ?zs)" by (simp add: sample_keys)
    show "set (map ?k ?ys) = set (map ?k ?zs)" using s by (simp only: set_map)
  qed
  then show ?thesis using inj by (simp only: inj_on_map_eq_map)
qed

text \<open>
  Claim C3, as amended. A label without an underscore, or one that does not split into
  exactly two parts, has the key \<open>(9999, 99)\<close>. For a label that splits in two, the
  parts are replaced one by one: the year is the number read from all-digit text and
  \<open>9999\<close> otherwise, the month is the index of the calendar name and \<open>99\<close>
  otherwise (and the whole key is \<open>(9999, 99)\<close> when reading the number raises). The
  sequence is sorted by key, so every label with the year \<open>9999\<close> comes after every
  label with a year below it; and the labels \<open>March_2025\<close>, \<open>Feb_Bad\<close>,
  \<open>January_2025\<close>, in whatever order the set lists them, come out as
  \<open>January_2025\<close>, \<open>March_2025\<close>, \<open>Feb_Bad\<close>.
\<close>

theorem period_key_and_order:
  "(CHR ''_'' \<notin> set l0 \<or> length (split_on (CHR ''_'') l0) \<noteq> 2 \<longrightarrow> sort_months_key l0 = (9999, 99))
   \<and> (split_on (CHR ''_'') l1 = [m1, y1] \<and> py_int y1 = Some n \<longrightarrow> sort_months_key l1 = (n, month_part m1))
   \<and> (split_on (CHR ''_'') l2 = [m2, y2] \<and> \<not> isdigit y2 \<longrightarrow> sort_months_key l2 = (9999, month_part m2))
   \<and> (split_on (CHR ''_'') l3 = [m3, y3] \<and> isdigit y3 \<and> py_int y3 = None \<longrightarrow> sort_months_key l3 = (9999, 99))
   \<and> sorted (map sort_months_key (sorted_months rt all_months))
   \<and> (a \<in> set (set_order rt all_months) \<and> b \<in> set (set_order rt all_months)
        \<and> fst (sort_months_key a) < 9999 \<and> fst (sort_months_key b) = 9999
      \<longrightarrow> comes_before (sorted_months rt all_months) a b)
   \<and> (set (set_order rt all_months) = {''March_2025'', ''Feb_Bad'', ''January_2025''}
        \<and> distinct (set_order rt all_months)
      \<longrightarrow> sorted_months rt all_months = [''January_2025'', ''March_2025'', ''Feb_Bad''])"
proof (intro conjI impI)
  assume "CHR ''_'' \<notin> set l0 \<or> length (split_on (CHR ''_'') l0) \<noteq> 2"
  then show "sort_months_key l0 = (9999, 99)"
    by (auto simp: sort_months_key_def split: list.splits)
next
  assume a: "split_on (CHR ''_'') l1 = [m1, y1] \<and> py_int y1 = Some n"
  then have "CHR ''_'' \<in> set l1"
    using split_on_acc_no_sep [of "CHR ''_''" l1 "[]"] by (auto simp: split_on_def)
  then show "sort_months_key l1 = (n, month_part m1)"
    using a py_int_isdigit [of y1 n] by (simp add: sort_months_key_def month_part_def)
next
  assume a: "split_on (CHR ''_'') l2 = [m2, y2] \<and> \<not> isdigit y2"
  then have "CHR ''_'' \<in> set l2"
    using split_on_acc_no_sep [of "CHR ''_''" l2 "[]"] by (auto simp: split_on_def)
  then show "sort_months_key l2 = (9999, month_part m2)"
    using a by (simp add: sort_months_key_def month_part_def)
next
  assume a: "split_on (CHR ''_'') l3 = [m3, y3] \<and> isdigit y3 \<and> py_int y3 = None"
  then show "sort_months_key l3 = (9999, 99)"
    by (simp add: sort_months_key_def)
next
  show "sorted (map sort_months_key (sorted_months rt all_months))"
    by (simp add: sorted_months_def)
next
  assume a: "a \<in> set (set_order rt all_months) \<and> b \<in> set (set_order rt all_months)
        \<and> fst (sort_months_key a) < 9999 \<and> fst (sort_months_key b) = 9999"
  then have "sort_months_key a < sort_months_key b"
    by (simp add: less_prod_def)
  then show "comes_before (sorted_months rt all_months) a b"
    using a unfolding sorted_months_def by (intro sort_key_before) simp_all
next
  assume "set (set_order rt all_months) = {''March_2025'', ''Feb_Bad'', ''January_2025''}
        \<and> distinct (set_order rt all_months)"
  then show "sorted_months rt all_months = [''January_2025'', ''March_2025'', ''Feb_Bad'']"
    unfolding sorted_months_def using sample_order by blast
qed

theorem period_key_and_order_witness:
  "CHR ''_'' \<notin> set ''January2025'' \<and> sort_months_key ''January2025'' = (9999, 99)
   \<and> split_on (CHR ''_'') ''March_2025'' = [''March'', ''2025''] \<and> py_int ''2025'' = Some 2025
   \<and> sort_months_key ''March_2025'' = (2025, month_part ''March'')
   \<and> split_on (CHR ''_'') ''Feb_Bad'' = [''Feb'', ''Bad''] \<and> \<not> isdigit ''Bad''
   \<and> sort_months_key ''Feb_Bad'' = (9999, month_part ''Feb'')
   \<and> split_on (CHR ''_'') (''May_'' @ [CHR 0xB2]) = [''May'', [CHR 0xB2]]
   \<and> isdigit [CHR 0xB2] \<and> py_int [CHR 0xB2] = None
   \<and> sort_months_key (''May_'' @ [CHR 0xB2]) = (9999, 99)
   \<and> fst (sort_months_key ''March_2025'') < 9999 \<and> fst (sort_months_key ''Feb_Bad'') = 9999
   \<and> comes_before (sorted_months sample_rt [''March_2025'', ''Feb_Bad'', ''January_2025''])
        ''March_2025'' ''Feb_Bad''
   \<and> sorted_months sample_rt [''March_2025'', ''Feb_Bad'', ''January_2025'']
        = [''January_2025'', ''March_2025'', ''Feb_Bad'']"
proof -
  let ?all = "[''March_2025'', ''Feb_Bad'', ''January_2025'']"
  have h0: "CHR ''_'' \<notin> set ''January2025''" by code_simp
  have h1: "split_on (CHR ''_'') ''March_2025'' = [''March'', ''2025'']" "py_int ''2025'' = Some 2025"
    by code_simp+
  have h2: "split_on (CHR ''_'') ''Feb_Bad'' = [''Feb'', ''Bad'']" "\<not> isdigit ''Bad''"
    by code_simp+
  have h3: "split_on (CHR ''_'') (''May_'' @ [CHR 0xB2]) = [''May'', [CHR 0xB2]]"
    "isdigit [CHR 0xB2]" "py_int [CHR 0xB2] = None"
    by code_simp+
  have o: "set_order sample_rt ?all = ?all" by (simp add: sample_rt_def)
  have h5: "''March_2025'' \<in> set (set_order sample_rt ?all)"
    "''Feb_Bad'' \<in> set (set_order sample_rt ?all)"
    "set (set_order sample_rt ?all) = {''March_2025'', ''Feb_Bad'', ''January_2025''}"
    "distinct (set_order sample_rt ?all)"
    unfolding o by simp_all
  have h6: "fst (sort_months_key ''March_2025'') < 9999" "fst (sort_months_key ''Feb_Bad'') = 9999"
    by (simp_all add: sample_keys)
  show ?thesis
    using h0 h1 h2 h3 h5 h6
      period_key_and_order [of "''January2025''" "''March_2025''" "''March''" "''2025''" 2025
        "''Feb_Bad''" "''Feb''" "''Bad''" "''May_'' @ [CHR 0xB2]" "''May''" "[CHR 0xB2]"
        sample_rt ?all "''March_2025''" "''Feb_Bad''"]
    by blast
qed

text \<open>
  Claim C3 as stated fails: a label with an unknown month name and a numeric year keeps
  its year, so its key is not the sentinel, and it is sorted before a well-formed label of
  a later year; a label with a calendar month and a non-numeric year keeps its month.
\<close>

theorem period_key_and_order_counterexample:
  "sort_months_key ''Feb_2025'' = (2025, 99)
   \<and> sort_months_key ''March_Bad'' = (9999, 2)
   \<and> sort_months_key ''January_2025'' = (2025, 0)
   \<and> sorted_months sample_rt [''January_2025'', ''Feb_2024''] = [''Feb_2024'', ''January_2025'']"
  by code_simp

section \<open>Properties of the merge\<close>

lemma dict_set_twice: "dict_set (dict_set d k a) k b = dict_set d k b"
  by (induction d) auto

lemma apply_rows_split:
  "apply_rows rt fname k rs e =
     e\<lparr>Name := name_after rt k rs (Name e), Months := months_after rt fname k rs (Months e)\<rparr>"
  unfolding apply_rows_def name_after_def months_after_def
  by (induction rs arbitrary: e) (simp_all add: update_entry_def)

lemma name_after_truthy: "truthy n \<Longrightarrow> name_after rt k rs n = n"
  unfolding name_after_def by (induction rs) (simp_all add: update_name_def)

lemma name_after_falsy:
  "\<not> truthy n \<Longrightarrow> \<not> truthy n' \<Longrightarrow>
   (name_after rt k rs n = n \<and> name_after rt k rs n' = n') \<or> name_after rt k rs n' = name_after rt k rs n"
  unfolding name_after_def
proof (induction rs arbitrary: n n')
  case Nil
  then show ?case by simp
next
  case (Cons r rs)
  show ?case
  proof (cases "row_key rt r = k \<and> notna (field r ''Name'')")
    case True
    then show ?thesis using Cons.prems by (simp add: update_name_def)
  next
    case False
    then have "(if row_key rt r = k then update_name r n else n) = n"
      "(if row_key rt r = k then update_name r n' else n') = n'"
      by (auto simp: update_name_def)
    then show ?thesis using Cons.IH [OF Cons.prems] by simp
  qed
qed

lemma name_after_idem: "name_after rt k rs (name_after rt k rs n) = name_after rt k rs n"
proof (cases "truthy (name_after rt k rs n)")
  case True
  then show ?thesis by (rule name_after_truthy)
next
  case False
  then have "\<not> truthy n" using name_after_truthy [of n rt k rs] by auto
  from name_after_falsy [OF this False, of rt k rs] show ?thesis by auto
qed

lemma months_after_shape:
  "(\<forall>m. months_after rt fname k rs m = m) \<or> (\<exists>t. \<forall>m. months_after rt fname k rs m = dict_set m fname t)"
proof (induction rs rule: rev_induct)
  case Nil
  then show ?case by (simp add: months_after_def)
next
  case (snoc r rs)
  show ?case
  proof (cases "row_key rt r = k")
    case True
    then have "\<forall>m. months_after rt fname k (rs @ [r]) m = dict_set m fname (row_metrics r)"
      using snoc by (auto simp: months_after_def dict_set_twice)
    then show ?thesis by blast
  next
    case False
    then have "\<forall>m. months_after rt fname k (rs @ [r]) m = months_after rt fname k rs m"
      by (simp add: months_after_def)
    then show ?thesis using snoc by simp
  qed
qed

lemma months_after_idem:
  "months_after rt fname k rs (months_after rt fname k rs m) = months_after rt fname k rs m"
  using months_after_shape [of rt fname k rs] by (auto simp: dict_set_twice)

lemma apply_rows_idem:
  "apply_rows rt fname k rs (apply_rows rt fname k rs e) = apply_rows rt fname k rs e"
  by (simp add: apply_rows_split name_after_idem months_after_idem)

lemma merge_rows_Cons: "merge_rows rt fname (r # rs) pf = merge_rows rt fname rs (merge_row rt fname r pf)"
  by (simp add: merge_rows_def)

lemma merge_row_head:
  "row_key rt r = k \<Longrightarrow> merge_row rt fname r ((k, e) # pf) = (k, update_entry fname r e) # pf"
  by (simp add: merge_row_def)

lemma merge_row_other:
  "row_key rt r \<noteq> k \<Longrightarrow> merge_row rt fname r ((k, e) # pf) = (k, e) # merge_row rt fname r pf"
  by (auto simp: merge_row_def Let_def)

lemma merge_rows_head:
  "merge_rows rt fname rs ((k, e) # pf) =
     (k, apply_rows rt fname k rs e) # merge_rows rt fname (filter (\<lambda>r. row_key rt r \<noteq> k) rs) pf"
proof (induction rs arbitrary: e pf)
  case Nil
  then show ?case by (simp add: merge_rows_def apply_rows_def)
next
  case (Cons r rs)
  show ?case
  proof (cases "row_key rt r = k")
    case True
    then show ?thesis
      by (simp add: merge_rows_Cons merge_row_head Cons.IH) (simp add: apply_rows_def)
  next
    case False
    then show ?thesis
      by (simp add: merge_rows_Cons merge_row_other Cons.IH) (simp add: apply_rows_def)
  qed
qed

lemma merge_row_empty:
  "merge_row rt fname r [] = [(row_key rt r, update_entry fname r (new_entry r))]"
  by (simp add: merge_row_def)

lemma merge_rows_idem:
  "merge_rows rt fname rs (merge_rows rt fname rs pf) = merge_rows rt fname rs pf"
proof (induction "length rs + length pf" arbitrary: rs pf rule: less_induct)
  case less
  show ?case
  proof (cases pf)
    case (Cons item pf')
    obtain k e where item: "item = (k, e)" by (cases item)
    let ?rs' = "filter (\<lambda>r. row_key rt r \<noteq> k) rs"
    have "length ?rs' + length pf' < length rs + length pf"
      using Cons by (simp add: le_imp_less_Suc)
    then have "merge_rows rt fname ?rs' (merge_rows rt fname ?rs' pf') = merge_rows rt fname ?rs' pf'"
      by (rule less)
    then show ?thesis
      by (simp add: Cons item merge_rows_head apply_rows_idem)
  next
    case Nil
    show ?thesis
    proof (cases rs)
      case Nil
      then show ?thesis by (simp add: merge_rows_def)
    next
      case (Cons r rs1)
      let ?k = "row_key rt r"
      let ?rs' = "filter (\<lambda>r. row_key rt r \<noteq> ?k) rs1"
      let ?n = "new_entry r"
      have a: "apply_rows rt fname ?k rs1 (update_entry fname r ?n) = apply_rows rt fname ?k rs ?n"
        by (simp add: apply_rows_def Cons)
      have first: "merge_rows rt fname rs [] = (?k, apply_rows rt fname ?k rs ?n) # merge_rows rt fname ?rs' []"
        by (simp add: Cons merge_rows_Cons merge_row_empty merge_rows_head a)
      have f: "filter (\<lambda>r. row_key rt r \<noteq> ?k) rs = ?rs'" by (simp add: Cons)
      have "length ?rs' + length ([] :: portfolio) < length rs + length pf"
        by (simp add: Cons Nil le_imp_less_Suc)
      then have ih: "merge_rows rt fname ?rs' (merge_rows rt fname ?rs' []) = merge_rows rt fname ?rs' []"
        by (rule less)
      show ?thesis
        unfolding Nil first merge_rows_head f ih apply_rows_idem ..
    qed
  qed
qed

lemma set_add_idem: "set_add (set_add xs x) x = set_add xs x"
  by (simp add: set_add_def)


lemma map_of_dict_upd:
  "map_of (dict_upd pf k f) k' = (if k' = k then map_option f (map_of pf k) else map_of pf k')"
  by (induction pf) auto

lemma map_of_dict_set: "map_of (dict_set d k v) k' = (if k' = k then Some v else map_of d k')"
  by (induction d) auto

lemma map_of_absent: "k \<notin> set (map fst pf) \<Longrightarrow> map_of pf k = None"
  by (simp add: map_of_eq_None_iff)

lemma map_of_append_new:
  "map_of pf k = None \<Longrightarrow>
   map_of (pf @ [(k, v)]) k' = (if k' = k then Some v else map_of pf k')"
  by (induction pf) (auto split: if_splits)

lemma map_of_merge_row:
  "map_of (merge_row rt fname r pf) k =
     (if row_key rt r = k
      then Some (update_entry fname r (case map_of pf k of None \<Rightarrow> new_entry r | Some e \<Rightarrow> e))
      else map_of pf k)"
proof (cases "row_key rt r \<in> set (map fst pf)")
  case True
  then obtain e where "map_of pf (row_key rt r) = Some e"
    by (metis map_of_eq_None_iff not_Some_eq set_map)
  then show ?thesis using True by (auto simp: merge_row_def map_of_dict_upd)
next
  case False
  then have n: "map_of pf (row_key rt r) = None" by (rule map_of_absent)
  have "map_of (dict_upd (pf @ [(row_key rt r, new_entry r)]) (row_key rt r) (update_entry fname r)) k
      = (if row_key rt r = k then Some (update_entry fname r (new_entry r)) else map_of pf k)"
    unfolding map_of_dict_upd map_of_append_new [OF n] by auto
  then show ?thesis
    using False n by (auto simp: merge_row_def Let_def)
qed

lemma merge_all_keeps:
  assumes "map_of pf k = Some e"
  shows "\<exists>e'. map_of (merge_all rt labelled pf) k = Some e' \<and> Rating e' = Rating e
           \<and> (truthy (Name e) \<longrightarrow> Name e' = Name e)"
  using assms
proof (induction labelled arbitrary: pf e)
  case Nil
  then show ?case by (simp add: merge_all_def)
next
  case (Cons fr labelled)
  let ?pf = "merge_row rt (fst fr) (snd fr) pf"
  have "\<exists>e1. map_of ?pf k = Some e1 \<and> Rating e1 = Rating e
      \<and> (truthy (Name e) \<longrightarrow> Name e1 = Name e)"
    using Cons.prems by (simp add: map_of_merge_row update_entry_def update_name_def)
  then obtain e1 where e1: "map_of ?pf k = Some e1" "Rating e1 = Rating e"
    "truthy (Name e) \<longrightarrow> Name e1 = Name e" by blast
  from Cons.IH [OF e1(1)] obtain e' where
    "map_of (merge_all rt labelled ?pf) k = Some e'" "Rating e' = Rating e1"
    "truthy (Name e1) \<longrightarrow> Name e' = Name e1" by blast
  then show ?case using e1 by (auto simp: merge_all_def)
qed

text \<open>
  Claim C2, as amended. Once an entry exists, its rating is never changed by any later
  record, whatever the stored rating and the record hold; a name stored as a non-empty
  text is never replaced. A record overwrites the name of its entry when the stored name
  is \<open>None\<close> or the empty text and the record's own name is not NaN. An entry made
  for a new identifier takes the name and the rating of the record that made it.
\<close>

theorem merge_metadata:
  "(map_of pf k = Some e \<longrightarrow>
      Rating (the (map_of (merge_all rt labelled pf) k)) = Rating e)
   \<and> (map_of pf k = Some e \<and> Name e = PStr s \<and> s \<noteq> [] \<longrightarrow>
      Name (the (map_of (merge_all rt labelled pf) k)) = PStr s)
   \<and> (map_of pf2 (row_key rt r2) = Some e2 \<and> (Name e2 = PNone \<or> Name e2 = PStr [])
        \<and> notna (field r2 ''Name'') \<longrightarrow>
      Name (the (map_of (merge_row rt fname2 r2 pf2) (row_key rt r2))) = field r2 ''Name'')
   \<and> (map_of pf3 (row_key rt r3) = None \<longrightarrow>
      Name (the (map_of (merge_row rt fname3 r3 pf3) (row_key rt r3))) = field r3 ''Name''
      \<and> Rating (the (map_of (merge_row rt fname3 r3 pf3) (row_key rt r3))) = field r3 ''Rating'')"
proof (intro conjI impI)
  assume "map_of pf k = Some e"
  from merge_all_keeps [OF this, of rt labelled]
  show "Rating (the (map_of (merge_all rt labelled pf) k)) = Rating e" by auto
next
  assume a: "map_of pf k = Some e \<and> Name e = PStr s \<and> s \<noteq> []"
  then have "map_of pf k = Some e" "truthy (Name e)" by simp_all
  from merge_all_keeps [OF this(1), of rt labelled] this(2) a
  show "Name (the (map_of (merge_all rt labelled pf) k)) = PStr s" by auto
next
  assume "map_of pf2 (row_key rt r2) = Some e2 \<and> (Name e2 = PNone \<or> Name e2 = PStr [])
        \<and> notna (field r2 ''Name'')"
  then show "Name (the (map_of (merge_row rt fname2 r2 pf2) (row_key rt r2))) = field r2 ''Name''"
    by (auto simp: map_of_merge_row update_entry_def update_name_def)
next
  assume "map_of pf3 (row_key rt r3) = None"
  then show "Name (the (map_of (merge_row rt fname3 r3 pf3) (row_key rt r3))) = field r3 ''Name''"
    by (auto simp: map_of_merge_row update_entry_def update_name_def new_entry_def)
next
  assume "map_of pf3 (row_key rt r3) = None"
  then show "Rating (the (map_of (merge_row rt fname3 r3 pf3) (row_key rt r3))) = field r3 ''Rating''"
    by (auto simp: map_of_merge_row update_entry_def update_name_def new_entry_def)
qed

lemma sample_merge_keys:
  "row_key sample_rt sample_jan = ''INE1''" "row_key sample_rt sample_feb = ''INE1''"
  "row_key sample_rt sample_unnamed = ''INE1''"
  by code_simp+

lemma sample_merged:
  "merge_row sample_rt ''January_2025'' sample_jan []
     = [(''INE1'', \<lparr>Name = PStr ''Acme'', Rating = PFl NaN,
          Months = [(''January_2025'', row_metrics sample_jan)]\<rparr>)]"
  "merge_row sample_rt ''January_2025'' sample_unnamed []
     = [(''INE1'', \<lparr>Name = PNone, Rating = PNone,
          Months = [(''January_2025'', row_metrics sample_unnamed)]\<rparr>)]"
  by (simp_all add: merge_row_empty sample_merge_keys update_entry_def new_entry_def update_name_def)
     (simp_all add: field_def row_get_def sample_jan_def sample_unnamed_def)

theorem merge_metadata_witness:
  "map_of (merge_row sample_rt ''January_2025'' sample_jan []) ''INE1''
     = Some \<lparr>Name = PStr ''Acme'', Rating = PFl NaN, Months = [(''January_2025'', row_metrics sample_jan)]\<rparr>
   \<and> Rating (the (map_of (merge_all sample_rt [(''February_2025'', sample_feb)]
        (merge_row sample_rt ''January_2025'' sample_jan [])) ''INE1'')) = PFl NaN
   \<and> Name (the (map_of (merge_all sample_rt [(''February_2025'', sample_feb)]
        (merge_row sample_rt ''January_2025'' sample_jan [])) ''INE1'')) = PStr ''Acme''
   \<and> map_of (merge_row sample_rt ''January_2025'' sample_unnamed []) (row_key sample_rt sample_jan)
     = Some \<lparr>Name = PNone, Rating = PNone, Months = [(''January_2025'', row_metrics sample_unnamed)]\<rparr>
   \<and> notna (field sample_jan ''Name'')
   \<and> Name (the (map_of (merge_row sample_rt ''February_2025'' sample_jan
        (merge_row sample_rt ''January_2025'' sample_unnamed [])) (row_key sample_rt sample_jan)))
     = field sample_jan ''Name''
   \<and> map_of ([] :: portfolio) (row_key sample_rt sample_feb) = None
   \<and> Name (the (map_of (merge_row sample_rt ''February_2025'' sample_feb []) (row_key sample_rt sample_feb)))
     = field sample_feb ''Name''
   \<and> Rating (the (map_of (merge_row sample_rt ''February_2025'' sample_feb []) (row_key sample_rt sample_feb)))
     = field sample_feb ''Rating''"
proof -
  let ?pf = "merge_row sample_rt ''January_2025'' sample_jan []"
  let ?pu = "merge_row sample_rt ''January_2025'' sample_unnamed []"
  let ?e = "\<lparr>Name = PStr ''Acme'', Rating = PFl NaN, Months = [(''January_2025'', row_metrics sample_jan)]\<rparr>"
  let ?u = "\<lparr>Name = PNone, Rating = PNone, Months = [(''January_2025'', row_metrics sample_unnamed)]\<rparr>"
  have 1: "map_of ?pf ''INE1'' = Some ?e" by (simp add: sample_merged)
  have 2: "Name ?e = PStr ''Acme''" "''Acme'' \<noteq> []" "Rating ?e = PFl NaN" by simp_all
  have 3: "map_of ?pu (row_key sample_rt sample_jan) = Some ?u"
    by (simp add: sample_merged sample_merge_keys)
  have 4: "Name ?u = PNone \<or> Name ?u = PStr []" by simp
  have 5: "notna (field sample_jan ''Name'')" by code_simp
  have 6: "map_of ([] :: portfolio) (row_key sample_rt sample_feb) = None" by simp
  show ?thesis
    using 1 2(2) 3 4 5 6
      merge_metadata [where pf = ?pf and k = "''INE1''" and e = ?e and rt = sample_rt
        and labelled = "[(''February_2025'', sample_feb)]" and s = "''Acme''"
        and ?pf2.0 = ?pu and ?r2.0 = sample_jan and ?e2.0 = ?u and ?fname2.0 = "''February_2025''"
        and ?pf3.0 = "[]" and ?r3.0 = sample_feb and ?fname3.0 = "''February_2025''",
        unfolded 2(1) 2(3)]
    by blast
qed

text \<open>
  Claim C2 as stated fails for the rating: the January record has no rating (an empty
  cell, or no rating column at all), the February record of the same identifier has the
  rating \<open>Banks\<close>, and the merged entry still has none.
\<close>

theorem merge_metadata_counterexample:
  "map (\<lambda>item. (fst item, Name (snd item), Rating (snd item)))
     (merge_all sample_rt [(''January_2025'', sample_jan), (''February_2025'', sample_feb)] [])
     = [(''INE1'', PStr ''Acme'', PFl NaN)]
   \<and> field sample_feb ''Rating'' = PStr ''Banks''
   \<and> map (\<lambda>item. (fst item, Name (snd item), Rating (snd item)))
     (merge_all sample_rt [(''January_2025'', sample_unnamed), (''February_2025'', sample_feb)] [])
     = [(''INE1'', PNone, PNone)]"
  by code_simp

lemma merge_rows_snoc:
  "merge_rows rt fname (df @ [r]) pf = merge_row rt fname r (merge_rows rt fname df pf)"
  by (simp add: merge_rows_def)

lemma months_of_merge_rows:
  "filter (\<lambda>r. row_key rt r = k) df \<noteq> [] \<Longrightarrow>
   map_of (Months (the (map_of (merge_rows rt fname df pf) k))) fname
     = Some (row_metrics (last (filter (\<lambda>r. row_key rt r = k) df)))"
proof (induction df rule: rev_induct)
  case Nil
  then show ?case by simp
next
  case (snoc r df)
  show ?case
  proof (cases "row_key rt r = k")
    case True
    then show ?thesis
      by (simp add: merge_rows_snoc map_of_merge_row update_entry_def map_of_dict_set)
  next
    case False
    then show ?thesis
      using snoc by (simp add: merge_rows_snoc map_of_merge_row)
  qed
qed

text \<open>
  Claim C9. Processing the rows of a file a second time under the same period label
  leaves the portfolio as it was after the first time, and so does processing the whole
  file again (also when it is skipped); after the rows of a file, the entry of a period
  under an identifier is the metrics of the last row with that identifier, replaced and
  not added up.
\<close>

theorem reprocessing_idempotent:
  "merge_rows rt fname df (merge_rows rt fname df pf) = merge_rows rt fname df pf
   \<and> process_file rt f (process_file rt f st) = process_file rt f st
   \<and> (filter (\<lambda>r. row_key rt r = k) df \<noteq> [] \<longrightarrow>
        map_of (Months (the (map_of (merge_rows rt fname df pf) k))) fname
          = Some (row_metrics (last (filter (\<lambda>r. row_key rt r = k) df))))"
proof (intro conjI impI)
  show "merge_rows rt fname df (merge_rows rt fname df pf) = merge_rows rt fname df pf"
    by (rule merge_rows_idem)
  show "process_file rt f (process_file rt f st) = process_file rt f st"
    by (simp add: process_file_def Let_def set_add_idem merge_rows_idem split: option.splits)
  assume "filter (\<lambda>r. row_key rt r = k) df \<noteq> []"
  then show "map_of (Months (the (map_of (merge_rows rt fname df pf) k))) fname
          = Some (row_metrics (last (filter (\<lambda>r. row_key rt r = k) df)))"
    by (rule months_of_merge_rows)
qed

theorem reprocessing_idempotent_witness:
  "filter (\<lambda>r. row_key sample_rt r = ''INE1'') [sample_jan, sample_unnamed] \<noteq> []
   \<and> merge_rows sample_rt ''January_2025'' [sample_jan, sample_unnamed]
        (merge_rows sample_rt ''January_2025'' [sample_jan, sample_unnamed] [])
      = merge_rows sample_rt ''January_2025'' [sample_jan, sample_unnamed] []
   \<and> process_file sample_rt (''January_2025.xls'', None) (process_file sample_rt (''January_2025.xls'', None) ([], []))
      = process_file sample_rt (''January_2025.xls'', None) ([], [])
   \<and> map_of (Months (the (map_of
        (merge_rows sample_rt ''January_2025'' [sample_jan, sample_unnamed] []) ''INE1''))) ''January_2025''
      = Some (row_metrics sample_unnamed)"
proof -
  have f: "filter (\<lambda>r. row_key sample_rt r = ''INE1'') [sample_jan, sample_unnamed]
      = [sample_jan, sample_unnamed]"
    by (simp add: sample_merge_keys)
  have l: "last [sample_jan, sample_unnamed] = sample_unnamed" by simp
  show ?thesis
    using reprocessing_idempotent [of sample_rt "''January_2025''" "[sample_jan, sample_unnamed]" "[]"
        "(''January_2025.xls'', None)" "([], [])" "''INE1''"]
    unfolding f l by blast
qed

section \<open>Properties of the report assembly\<close>

lemma fold_fadd_finite:
  "list_all (\<lambda>v. v \<noteq> NaN) vs \<Longrightarrow>
   fold (\<lambda>v total. fadd total v) vs (Fin a)
     = Fin (a + sum_list (map (\<lambda>v. case v of Fin x \<Rightarrow> x | NaN \<Rightarrow> 0) vs))"
proof (induction vs arbitrary: a)
  case Nil
  then show ?case by simp
next
  case (Cons v vs)
  then obtain x where "v = Fin x" by (cases v) auto
  then show ?case using Cons by (simp add: add.assoc)
qed

lemma column_total_sum:
  assumes "list_all (\<lambda>item. v_float rt (node (snd item) m key) \<noteq> NaN) pf"
  shows "column_total rt pf m key
     = Fin (sum_list (map (\<lambda>item. case v_float rt (node (snd item) m key) of Fin x \<Rightarrow> x | NaN \<Rightarrow> 0) pf))"
proof -
  have "column_total rt pf m key
      = fold (\<lambda>v total. fadd total v) (map (\<lambda>item. v_float rt (node (snd item) m key)) pf) (Fin 0)"
    by (simp add: column_total_def fold_map comp_def)
  also have "\<dots> = Fin (0 + sum_list (map (\<lambda>v. case v of Fin x \<Rightarrow> x | NaN \<Rightarrow> 0)
      (map (\<lambda>item. v_float rt (node (snd item) m key)) pf)))"
    using assms by (intro fold_fadd_finite) (simp add: list_all_iff)
  finally show ?thesis by (simp add: comp_def)
qed

lemma absent_is_zero:
  "v_float rt PNone = Fin 0"
  "float_parse rt s = None \<Longrightarrow> v_float rt (PStr s) = Fin 0"
  "v_float rt (PFl NaN) = NaN"
  by (simp_all add: v_float_def)

text \<open>
  Claim C4 fails on the code. A holding with an empty quantity cell is stored with the
  quantity NaN; \<open>float\<close> of NaN does not raise, so the NaN is added to the column
  total, and the total of the column, which the claim puts at 100, is NaN.
\<close>

theorem column_total_nan:
  "map (\<lambda>item. (fst item, Months (snd item)))
     (merge_rows sample_rt ''January_2025'' [sample_jan, sample_gap] [])
     = [(''INE1'', [(''January_2025'', \<lparr>Quantity = PFl (Fin 100), MarketValue = PNone, PctAssets = PNone\<rparr>)]),
        (''INE2'', [(''January_2025'', \<lparr>Quantity = PFl NaN, MarketValue = PNone, PctAssets = PNone\<rparr>)])]
   \<and> column_total sample_rt (merge_rows sample_rt ''January_2025'' [sample_jan, sample_gap] [])
        ''January_2025'' Quantity = NaN
   \<and> totals_row sample_rt (merge_rows sample_rt ''January_2025'' [sample_jan, sample_gap] [])
        [''January_2025''] = [PStr ''Total'', PNone, PNone, PFl NaN, PFl (Fin 0), PFl (Fin 0)]"
  by code_simp

section \<open>Properties of the run over all files\<close>

lemma process_file_months:
  "snd (process_file rt f st) = set_add (snd st) (file_label (fst f))"
  by (simp add: process_file_def Let_def split: option.splits)

lemma fold_process_file_months:
  "set (snd (fold (process_file rt) files st)) = set (snd st) \<union> (\<lambda>f. file_label (fst f)) ` set files"
  by (induction files arbitrary: st) (auto simp: process_file_months set_add_def)

lemma fold_process_file_distinct:
  "distinct (snd st) \<Longrightarrow> distinct (snd (fold (process_file rt) files st))"
  by (induction files arbitrary: st) (auto simp: process_file_months set_add_def)

lemma dict_set_keys: "fst ` set (dict_set d k v) = insert k (fst ` set d)"
proof (induction d)
  case Nil
  show ?case by simp
next
  case (Cons x d)
  obtain a b where x: "x = (a, b)" by (cases x)
  show ?case
  proof (cases "a = k")
    case True
    then show ?thesis by (simp add: x)
  next
    case False
    then have "fst ` set (dict_set (x # d) k v) = insert a (fst ` set (dict_set d k v))"
      by (simp add: x)
    then show ?thesis unfolding Cons.IH by (auto simp: x)
  qed
qed

lemma dict_upd_set:
  "item \<in> set (dict_upd pf k f) \<Longrightarrow> item \<in> set pf \<or> (\<exists>v. (k, v) \<in> set pf \<and> item = (k, f v))"
  by (induction pf) (auto split: if_splits)

lemma merge_row_periods:
  assumes "\<forall>item \<in> set pf. fst ` set (Months (snd item)) \<subseteq> P" and "fname \<in> P"
  shows "\<forall>item \<in> set (merge_row rt fname r pf). fst ` set (Months (snd item)) \<subseteq> P"
proof
  fix item assume i: "item \<in> set (merge_row rt fname r pf)"
  let ?k = "row_key rt r"
  let ?pf = "if ?k \<notin> set (map fst pf) then pf @ [(?k, new_entry r)] else pf"
  have pf': "\<forall>item \<in> set ?pf. fst ` set (Months (snd item)) \<subseteq> P"
    using assms(1) by (auto simp: new_entry_def)
  from i have "item \<in> set (dict_upd ?pf ?k (update_entry fname r))"
    by (simp add: merge_row_def Let_def)
  from dict_upd_set [OF this]
  consider "item \<in> set ?pf" | v where "(?k, v) \<in> set ?pf" "item = (?k, update_entry fname r v)"
    by blast
  then show "fst ` set (Months (snd item)) \<subseteq> P"
  proof cases
    case 1
    then show ?thesis using pf' by blast
  next
    case 2
    then have "fst ` set (Months v) \<subseteq> P" using pf' by force
    then show ?thesis using 2 assms(2) by (simp add: update_entry_def dict_set_keys)
  qed
qed

lemma merge_rows_periods:
  assumes "\<forall>item \<in> set pf. fst ` set (Months (snd item)) \<subseteq> P" and "fname \<in> P"
  shows "\<forall>item \<in> set (merge_rows rt fname df pf). fst ` set (Months (snd item)) \<subseteq> P"
  using assms(1)
proof (induction df arbitrary: pf)
  case Nil
  then show ?case by (simp add: merge_rows_def)
next
  case (Cons r df)
  have "\<forall>item \<in> set (merge_row rt fname r pf). fst ` set (Months (snd item)) \<subseteq> P"
    using Cons.prems assms(2) by (rule merge_row_periods)
  then show ?case using Cons.IH by (simp add: merge_rows_def)
qed

lemma process_files_periods:
  assumes "\<forall>item \<in> set (fst st). fst ` set (Months (snd item)) \<subseteq> P"
    and "\<forall>g \<in> set files. read_portfolio_file rt (snd g) \<noteq> None \<longrightarrow> file_label (fst g) \<in> P"
  shows "\<forall>item \<in> set (fst (fold (process_file rt) files st)). fst ` set (Months (snd item)) \<subseteq> P"
  using assms
proof (induction files arbitrary: st)
  case Nil
  then show ?case by simp
next
  case (Cons f files)
  have "\<forall>item \<in> set (fst (process_file rt f st)). fst ` set (Months (snd item)) \<subseteq> P"
  proof (cases "read_portfolio_file rt (snd f)")
    case None
    then show ?thesis using Cons.prems(1) by (simp add: process_file_def Let_def)
  next
    case (Some df)
    then have "file_label (fst f) \<in> P" using Cons.prems(2) by simp
    then show ?thesis
      using Some Cons.prems(1) merge_rows_periods by (simp add: process_file_def Let_def)
  qed
  then show ?case using Cons.IH Cons.prems(2) by simp
qed

lemma column_total_absent:
  assumes "\<forall>item \<in> set pf. map_of (Months (snd item)) m = None"
  shows "column_total rt pf m key = Fin 0"
proof -
  have "fold (\<lambda>item total. fadd total (v_float rt (node (snd item) m key))) pf (Fin 0) = Fin 0"
    using assms by (induction pf) (simp_all add: node_def v_float_def)
  then show ?thesis by (simp add: column_total_def)
qed

lemma position_found:
  "x \<in> set xs \<Longrightarrow> position xs x < length xs \<and> xs ! position xs x = x"
  unfolding position_def by (induction xs) auto

lemma group_of_three:
  assumes "\<And>m. length (g m) = 3" and "i < length ms"
  shows "take 3 (drop (3 * i) (concat (map g ms))) = g (ms ! i)"
  using assms(2)
proof (induction ms arbitrary: i)
  case Nil
  then show ?case by simp
next
  case (Cons m ms)
  show ?case
  proof (cases i)
    case 0
    then show ?thesis using assms(1) [of m] by simp
  next
    case (Suc j)
    then have "drop (3 * i) (g m @ concat (map g ms)) = drop (3 * j) (concat (map g ms))"
      using assms(1) [of m] by simp
    then show ?thesis using Cons Suc by simp
  qed
qed

lemma group_after_static:
  assumes "\<And>m. length (g m) = 3" and "i < length ms" and "length pre = 3"
  shows "take 3 (drop (3 + 3 * i) (pre @ concat (map g ms))) = g (ms ! i)"
proof -
  have "drop (3 + 3 * i) (pre @ concat (map g ms)) = drop (3 * i) (concat (map g ms))"
    using assms(3) by simp
  then show ?thesis using group_of_three [OF assms(1,2)] by simp
qed

lemma build_sheet_rows:
  "length (build_sheet rt pf ms) = 4 + length pf"
  "build_sheet rt pf ms ! 1 = month_header_row ms"
  "build_sheet rt pf ms ! (3 + length pf) = totals_row rt pf ms"
  "take (length pf) (drop 3 (build_sheet rt pf ms)) = map (data_row rt ms) pf"
  by (simp_all add: build_sheet_def nth_append)

lemma month_header_row_groups:
  "length (month_header_row ms) = 3 + 3 * length ms"
  "every_third (drop 3 (month_header_row ms)) = map PStr ms"
proof -
  show "length (month_header_row ms) = 3 + 3 * length ms"
    by (induction ms) (simp_all add: month_header_row_def headers_static_def)
  have "every_third (concat (map (\<lambda>m. [PStr m, PNone, PNone]) ms)) = map PStr ms"
    by (induction ms) simp_all
  then show "every_third (drop 3 (month_header_row ms)) = map PStr ms"
    by (simp add: month_header_row_def headers_static_def)
qed

text \<open>
  Claim C10. With a set listed element by element, \<open>main\<close> writes a sheet of three
  header rows, one row for every holding and the totals row, and the label of every input
  file, whether its extraction succeeded or not, stands exactly once in the sequence of
  months: the month row of the sheet has, from column offset 3 on, one group of three
  cells for every month of the sequence, headed by the label. When every file with that
  label was skipped (unreadable, no header row, or any exception while extracting), the
  three cells of the group are blank in every data row and \<open>0.0\<close> in the totals row.
\<close>

theorem skipped_file_period:
  assumes "lists_each_once rt" and "f \<in> set files"
  shows "\<exists>sheet. main rt files = Some sheet
    \<and> length sheet = 4 + length (fst (process_files rt files))
    \<and> file_label (fst f) \<in> set (sorted_months rt (snd (process_files rt files)))
    \<and> distinct (sorted_months rt (snd (process_files rt files)))
    \<and> length (sheet ! 1) = 3 + 3 * length (sorted_months rt (snd (process_files rt files)))
    \<and> every_third (drop 3 (sheet ! 1)) = map PStr (sorted_months rt (snd (process_files rt files)))
    \<and> take 3 (drop (3 + 3 * position (sorted_months rt (snd (process_files rt files)))
                                      (file_label (fst f))) (sheet ! 1))
        = [PStr (file_label (fst f)), PNone, PNone]
    \<and> ((\<forall>g \<in> set files. file_label (fst g) = file_label (fst f) \<longrightarrow>
            read_portfolio_file rt (snd g) = None) \<longrightarrow>
        take 3 (drop (3 + 3 * position (sorted_months rt (snd (process_files rt files)))
                                        (file_label (fst f)))
                  (sheet ! (3 + length (fst (process_files rt files)))))
          = [PFl (Fin 0), PFl (Fin 0), PFl (Fin 0)]
        \<and> list_all (\<lambda>row. take 3 (drop (3 + 3 * position (sorted_months rt (snd (process_files rt files)))
                                                          (file_label (fst f))) row)
                           = [PNone, PNone, PNone])
            (take (length (fst (process_files rt files))) (drop 3 sheet)))"
proof -
  let ?st = "process_files rt files"
  let ?pf = "fst ?st"
  let ?ms = "sorted_months rt (snd ?st)"
  let ?l = "file_label (fst f)"
  let ?i = "position ?ms ?l"
  let ?sheet = "build_sheet rt ?pf ?ms"
  have d: "distinct (snd ?st)"
    unfolding process_files_def by (rule fold_process_file_distinct) simp
  have order: "set (set_order rt (snd ?st)) = set (snd ?st)" "distinct (set_order rt (snd ?st))"
    using assms(1) d unfolding lists_each_once_def by blast+
  have "?l \<in> set (snd ?st)"
    using assms(2) unfolding process_files_def fold_process_file_months by auto
  then have mem: "?l \<in> set ?ms" by (simp add: sorted_months_def order)
  have dist: "distinct ?ms" by (simp add: sorted_months_def order)
  have i: "?i < length ?ms" "?ms ! ?i = ?l" using position_found [OF mem] by simp_all
  have m: "main rt files = Some ?sheet"
    using assms(2) by (auto simp: main_def Let_def)
  have hdr: "take 3 (drop (3 + 3 * ?i) (?sheet ! 1)) = [PStr ?l, PNone, PNone]"
    unfolding build_sheet_rows month_header_row_def
    using group_after_static [of "\<lambda>m. [PStr m, PNone, PNone]" ?i ?ms "map PStr headers_static"] i
    by (simp add: headers_static_def)
  have skipped: "take 3 (drop (3 + 3 * ?i) (?sheet ! (3 + length ?pf)))
          = [PFl (Fin 0), PFl (Fin 0), PFl (Fin 0)]
        \<and> list_all (\<lambda>row. take 3 (drop (3 + 3 * ?i) row) = [PNone, PNone, PNone])
            (take (length ?pf) (drop 3 ?sheet))"
    if a: "\<forall>g \<in> set files. file_label (fst g) = ?l \<longrightarrow> read_portfolio_file rt (snd g) = None"
  proof -
    let ?P = "{p. p \<noteq> ?l}"
    have "\<forall>item \<in> set ?pf. fst ` set (Months (snd item)) \<subseteq> ?P"
      unfolding process_files_def
      by (rule process_files_periods) (use a in auto)
    then have none: "\<forall>item \<in> set ?pf. map_of (Months (snd item)) ?l = None"
      by (auto simp: map_of_eq_None_iff)
    then have cells: "\<forall>item \<in> set ?pf. month_cells rt (snd item) ?l = [PNone, PNone, PNone]"
      by (simp add: month_cells_def node_def written_def)
    have totals: "month_totals rt ?pf ?l = [PFl (Fin 0), PFl (Fin 0), PFl (Fin 0)]"
      using none by (simp add: month_totals_def column_total_absent)
    have "take 3 (drop (3 + 3 * ?i) (totals_row rt ?pf ?ms)) = month_totals rt ?pf (?ms ! ?i)"
      unfolding totals_row_def
      by (rule group_after_static) (simp_all add: month_totals_def i)
    then have t: "take 3 (drop (3 + 3 * ?i) (?sheet ! (3 + length ?pf)))
          = [PFl (Fin 0), PFl (Fin 0), PFl (Fin 0)]"
      unfolding build_sheet_rows by (simp only: i totals)
    have "take 3 (drop (3 + 3 * ?i) (data_row rt ?ms item)) = [PNone, PNone, PNone]"
      if "item \<in> set ?pf" for item
    proof -
      have "take 3 (drop (3 + 3 * ?i) (data_row rt ?ms item)) = month_cells rt (snd item) (?ms ! ?i)"
        unfolding data_row_def
        by (rule group_after_static) (simp_all add: month_cells_def i)
      then show ?thesis using cells that by (simp only: i)
    qed
    then have "list_all (\<lambda>row. take 3 (drop (3 + 3 * ?i) row) = [PNone, PNone, PNone])
            (take (length ?pf) (drop 3 ?sheet))"
      unfolding build_sheet_rows by (simp add: list_all_iff)
    with t show ?thesis by simp
  qed
  have len1: "length ?sheet = 4 + length ?pf" by (rule build_sheet_rows)
  have hl: "length (?sheet ! 1) = 3 + 3 * length ?ms"
    by (simp only: build_sheet_rows month_header_row_groups)
  have ev: "every_third (drop 3 (?sheet ! 1)) = map PStr ?ms"
    by (simp only: build_sheet_rows month_header_row_groups)
  have "main rt files = Some ?sheet
    \<and> length ?sheet = 4 + length ?pf \<and> ?l \<in> set ?ms \<and> distinct ?ms
    \<and> length (?sheet ! 1) = 3 + 3 * length ?ms
    \<and> every_third (drop 3 (?sheet ! 1)) = map PStr ?ms
    \<and> take 3 (drop (3 + 3 * ?i) (?sheet ! 1)) = [PStr ?l, PNone, PNone]
    \<and> ((\<forall>g \<in> set files. file_label (fst g) = ?l \<longrightarrow> read_portfolio_file rt (snd g) = None) \<longrightarrow>
        take 3 (drop (3 + 3 * ?i) (?sheet ! (3 + length ?pf))) = [PFl (Fin 0), PFl (Fin 0), PFl (Fin 0)]
        \<and> list_all (\<lambda>row. take 3 (drop (3 + 3 * ?i) row) = [PNone, PNone, PNone])
            (take (length ?pf) (drop 3 ?sheet)))"
    using m len1 mem dist hl ev hdr skipped by blast
  then show ?thesis by (rule exI)
qed

theorem skipped_file_period_witness:
  "lists_each_once sample_rt
   \<and> (''February_2025.xls'', None) \<in> set sample_files
   \<and> list_all (\<lambda>g. file_label (fst g) = ''February_2025'' \<longrightarrow>
        read_portfolio_file sample_rt (snd g) = None) sample_files
   \<and> sorted_months sample_rt (snd (process_files sample_rt sample_files))
        = [''January_2025'', ''February_2025'']
   \<and> map fst (fst (process_files sample_rt sample_files)) = [''INE1'']
   \<and> (\<exists>sheet. main sample_rt sample_files = Some sheet
        \<and> length sheet = 5
        \<and> every_third (drop 3 (sheet ! 1)) = [PStr ''January_2025'', PStr ''February_2025'']
        \<and> take 3 (drop 6 (sheet ! 1)) = [PStr ''February_2025'', PNone, PNone]
        \<and> take 3 (drop 6 (sheet ! 4)) = [PFl (Fin 0), PFl (Fin 0), PFl (Fin 0)]
        \<and> list_all (\<lambda>row. take 3 (drop 6 row) = [PNone, PNone, PNone]) (take 1 (drop 3 sheet)))"
proof -
  let ?f = "(''February_2025.xls'', None :: workbook option)"
  let ?ms = "sorted_months sample_rt (snd (process_files sample_rt sample_files))"
  have 1: "lists_each_once sample_rt" by (simp add: lists_each_once_def sample_rt_def)
  have 2: "?f \<in> set sample_files" by (simp add: sample_files_def)
  have l: "file_label (fst ?f) = ''February_2025''"
    and l': "file_label ''January_2025.xls'' = ''January_2025''" by code_simp+
  have 3: "list_all (\<lambda>g. file_label (fst g) = ''February_2025'' \<longrightarrow>
        read_portfolio_file sample_rt (snd g) = None) sample_files"
    by (simp add: sample_files_def l' read_portfolio_file_def)
  then have 4: "\<forall>g \<in> set sample_files. file_label (fst g) = ''February_2025'' \<longrightarrow>
        read_portfolio_file sample_rt (snd g) = None"
    by (simp add: list_all_iff)
  have k: "row_key sample_rt sample_holding = ''INE1''" by code_simp
  have p1: "process_file sample_rt (''January_2025.xls'', Some (sample_wb [sample_start, sample_holding])) ([], [])
      = (merge_rows sample_rt ''January_2025'' [sample_holding] [], [''January_2025''])"
    by (simp add: process_file_def Let_def l' sample_read set_add_def)
  have p2: "process_file sample_rt ?f (pf, [''January_2025'']) = (pf, [''January_2025'', ''February_2025''])"
    for pf
    using l by (simp add: process_file_def Let_def read_portfolio_file_def set_add_def)
  have "process_files sample_rt sample_files
      = (merge_rows sample_rt ''January_2025'' [sample_holding] [], [''January_2025'', ''February_2025''])"
    by (simp add: process_files_def sample_files_def p1 p2)
  then have st: "map fst (fst (process_files sample_rt sample_files)) = [''INE1'']
      \<and> snd (process_files sample_rt sample_files) = [''January_2025'', ''February_2025'']"
    by (simp add: merge_rows_def merge_row_empty k)
  have "sort_key sort_months_key [''January_2025'', ''February_2025'']
      = [''January_2025'', ''February_2025'']" by code_simp
  then have 5: "?ms = [''January_2025'', ''February_2025'']"
    using st by (simp add: sorted_months_def sample_rt_def)
  have 6: "map fst (fst (process_files sample_rt sample_files)) = [''INE1'']" using st by simp
  then have 7: "length (fst (process_files sample_rt sample_files)) = 1"
    using length_map [of fst "fst (process_files sample_rt sample_files)"] by simp
  have 8: "position [''January_2025'', ''February_2025''] ''February_2025'' = 1" by code_simp
  have n: "3 + 3 * (1::nat) = 6" "4 + (1::nat) = 5" "3 + (1::nat) = 4" by simp_all
  show ?thesis
    using 1 2 3 4 5 6 skipped_file_period [OF 1 2, unfolded l 5 7 8 n]
    by (simp only: list.map) blast
qed

section \<open>Properties of the read-back\<close>

lemma every_third_triples: "every_third (concat (map (\<lambda>m. [f m, g m, h m]) ms)) = map f ms"
  by (induction ms) simp_all

lemma dict_set_new: "k \<notin> fst ` set d \<Longrightarrow> dict_set d k v = d @ [(k, v)]"
  by (induction d) auto

lemma fold_dict_set_distinct:
  assumes "distinct (map k ms)" and "k ` set ms \<inter> fst ` set acc = {}"
  shows "fold (\<lambda>m acc. dict_set acc (k m) (h m)) ms acc = acc @ map (\<lambda>m. (k m, h m)) ms"
  using assms
proof (induction ms arbitrary: acc)
  case Nil
  then show ?case by simp
next
  case (Cons m ms)
  have new: "dict_set acc (k m) (h m) = acc @ [(k m, h m)]"
    using Cons.prems(2) by (intro dict_set_new) auto
  have "fold (\<lambda>m acc. dict_set acc (k m) (h m)) ms (acc @ [(k m, h m)])
      = (acc @ [(k m, h m)]) @ map (\<lambda>m. (k m, h m)) ms"
    using Cons.prems by (intro Cons.IH) auto
  then show ?case by (simp add: new)
qed

lemma read_months_step:
  "cell_at r c = Some a \<Longrightarrow> cell_at r (c + 1) = Some b \<Longrightarrow> cell_at r (c + 2) = Some d \<Longrightarrow>
   read_months rt r c (m # ms) acc
     = read_months rt r (c + 3) ms
         (dict_set acc m \<lparr>rb_Quantity = clean rt a, rb_Value = clean rt b, rb_Pct = clean rt d\<rparr>)"
  by simp

lemma read_months_triples:
  "read_months rt (pre @ concat (map (\<lambda>m. [q m, v m, p m]) ms)) (length pre) (map k ms) acc
     = Some (fold (\<lambda>m acc. dict_set acc (k m)
          \<lparr>rb_Quantity = clean rt (q m), rb_Value = clean rt (v m), rb_Pct = clean rt (p m)\<rparr>) ms acc)"
proof (induction ms arbitrary: pre acc)
  case Nil
  then show ?case by simp
next
  case (Cons m ms)
  let ?row = "pre @ concat (map (\<lambda>m. [q m, v m, p m]) (m # ms))"
  let ?acc = "dict_set acc (k m)
     \<lparr>rb_Quantity = clean rt (q m), rb_Value = clean rt (v m), rb_Pct = clean rt (p m)\<rparr>"
  have c: "cell_at ?row (length pre) = Some (q m)" "cell_at ?row (length pre + 1) = Some (v m)"
    "cell_at ?row (length pre + 2) = Some (p m)"
    by (simp_all add: cell_at_def nth_append)
  have r: "?row = (pre @ [q m, v m, p m]) @ concat (map (\<lambda>m. [q m, v m, p m]) ms)" by simp
  have l: "length pre + 3 = length (pre @ [q m, v m, p m])" by simp
  have "read_months rt ?row (length pre) (k m # map k ms) acc
      = read_months rt ?row (length pre + 3) (map k ms) ?acc"
    by (rule read_months_step [OF c])
  also have "\<dots> = read_months rt ((pre @ [q m, v m, p m]) @ concat (map (\<lambda>m. [q m, v m, p m]) ms))
      (length (pre @ [q m, v m, p m])) (map k ms) ?acc"
    by (simp only: r l)
  also have "\<dots> = Some (fold (\<lambda>m acc. dict_set acc (k m)
          \<lparr>rb_Quantity = clean rt (q m), rb_Value = clean rt (v m), rb_Pct = clean rt (p m)\<rparr>) ms ?acc)"
    by (rule Cons.IH)
  finally show ?case by simp
qed

lemma clean_written: "clean rt (from_excel (written rt raw)) = zero_coerced rt raw"
proof (cases raw)
  case PNone
  then show ?thesis by (simp add: written_def from_excel_def clean_def isna_def zero_coerced_def)
next
  case (PFl f)
  then show ?thesis
    by (cases f) (simp_all add: written_def from_excel_def clean_def isna_def zero_coerced_def v_float_def)
next
  case (PStr s)
  show ?thesis
  proof (cases "float_parse rt s")
    case None
    then show ?thesis
      by (simp add: PStr written_def from_excel_def clean_def isna_def zero_coerced_def v_float_def)
  next
    case (Some f)
    then show ?thesis
      by (cases f) (simp_all add: PStr written_def from_excel_def clean_def isna_def zero_coerced_def v_float_def)
  qed
qed

lemma clean_total: "clean rt (from_excel (PFl f)) = nan_to_zero f"
  by (cases f) (simp_all add: from_excel_def clean_def isna_def nan_to_zero_def)

lemma read_data_row:
  assumes "distinct ms"
  shows "read_months rt (map from_excel (data_row rt ms item)) 3 (map PStr ms) []
     = Some (expected_months rt ms (snd item))"
proof -
  let ?e = "snd item"
  let ?q = "\<lambda>m. from_excel (written rt (node ?e m Quantity))"
  let ?v = "\<lambda>m. from_excel (written rt (node ?e m MarketValue))"
  let ?p = "\<lambda>m. from_excel (written rt (node ?e m PctAssets))"
  let ?pre = "[from_excel (Name ?e), from_excel (PStr (fst item)), from_excel (Rating ?e)]"
  have row: "map from_excel (data_row rt ms item) = ?pre @ concat (map (\<lambda>m. [?q m, ?v m, ?p m]) ms)"
    by (simp add: data_row_def month_cells_def map_concat comp_def)
  have len: "length ?pre = 3" by simp
  have "read_months rt (?pre @ concat (map (\<lambda>m. [?q m, ?v m, ?p m]) ms)) 3 (map PStr ms) []
      = Some (fold (\<lambda>m acc. dict_set acc (PStr m)
          \<lparr>rb_Quantity = clean rt (?q m), rb_Value = clean rt (?v m), rb_Pct = clean rt (?p m)\<rparr>) ms [])"
    using read_months_triples [of rt ?pre ?q ?v ?p ms PStr "[]"] unfolding len .
  also have "\<dots> = Some ([] @ map (\<lambda>m. (PStr m,
          \<lparr>rb_Quantity = clean rt (?q m), rb_Value = clean rt (?v m), rb_Pct = clean rt (?p m)\<rparr>)) ms)"
    using assms by (subst fold_dict_set_distinct) (simp_all add: distinct_map inj_on_def)
  finally have "read_months rt (?pre @ concat (map (\<lambda>m. [?q m, ?v m, ?p m]) ms)) 3 (map PStr ms) []
      = Some (expected_months rt ms (snd item))"
    by (simp add: expected_months_def clean_written)
  then show ?thesis unfolding row .
qed

lemma read_total_row:
  assumes "distinct ms"
  shows "read_months rt (map from_excel (totals_row rt pf ms)) 3 (map PStr ms) []
     = Some (rb_Months (total_record rt pf ms))"
proof -
  let ?q = "\<lambda>m. from_excel (PFl (column_total rt pf m Quantity))"
  let ?v = "\<lambda>m. from_excel (PFl (column_total rt pf m MarketValue))"
  let ?p = "\<lambda>m. from_excel (PFl (column_total rt pf m PctAssets))"
  let ?pre = "[from_excel (PStr ''Total''), from_excel PNone, from_excel PNone]"
  have row: "map from_excel (totals_row rt pf ms) = ?pre @ concat (map (\<lambda>m. [?q m, ?v m, ?p m]) ms)"
    by (simp add: totals_row_def month_totals_def map_concat comp_def)
  have len: "length ?pre = 3" by simp
  have "read_months rt (?pre @ concat (map (\<lambda>m. [?q m, ?v m, ?p m]) ms)) 3 (map PStr ms) []
      = Some (fold (\<lambda>m acc. dict_set acc (PStr m)
          \<lparr>rb_Quantity = clean rt (?q m), rb_Value = clean rt (?v m), rb_Pct = clean rt (?p m)\<rparr>) ms [])"
    using read_months_triples [of rt ?pre ?q ?v ?p ms PStr "[]"] unfolding len .
  also have "\<dots> = Some ([] @ map (\<lambda>m. (PStr m,
          \<lparr>rb_Quantity = clean rt (?q m), rb_Value = clean rt (?v m), rb_Pct = clean rt (?p m)\<rparr>)) ms)"
    using assms by (subst fold_dict_set_distinct) (simp_all add: distinct_map inj_on_def)
  finally have "read_months rt (?pre @ concat (map (\<lambda>m. [?q m, ?v m, ?p m]) ms)) 3 (map PStr ms) []
      = Some (rb_Months (total_record rt pf ms))"
    by (simp add: total_record_def clean_total)
  then show ?thesis unfolding row .
qed

lemma data_row_cells:
  "cell_at (map from_excel (data_row rt ms item)) 0 = Some (from_excel (Name (snd item)))"
  "cell_at (map from_excel (data_row rt ms item)) (Suc 0) = Some (from_excel (PStr (fst item)))"
  "cell_at (map from_excel (data_row rt ms item)) 2 = Some (from_excel (Rating (snd item)))"
  by (simp_all add: cell_at_def data_row_def from_excel_def)

lemma totals_row_cells:
  "cell_at (map from_excel (totals_row rt pf ms)) 0 = Some (PStr ''Total'')"
  "cell_at (map from_excel (totals_row rt pf ms)) (Suc 0) = Some (PFl NaN)"
  "cell_at (map from_excel (totals_row rt pf ms)) 2 = Some (PFl NaN)"
  by (simp_all add: cell_at_def totals_row_def from_excel_def)

lemma named_from_excel:
  "(isna (from_excel n) \<or> lower (py_str rt (from_excel n)) = ''nan'') = (\<not> named rt n)"
  by (cases n rule: notna.cases) (auto simp: named_def isna_def from_excel_def)

lemma total_is_named: "lower ''Total'' \<noteq> ''nan''"
  by code_simp

lemma named_keeps: "named rt n \<Longrightarrow> from_excel n = n"
  by (cases n) (auto simp: named_def from_excel_def)

lemma read_rows_named:
  assumes "cell_at r 0 = Some c0" "\<not> (isna c0 \<or> lower (py_str rt c0) = ''nan'')"
    and "cell_at r (Suc 0) = Some c1" "cell_at r 2 = Some c2"
    and "read_months rt r 3 months [] = Some mm" "read_rows rt months rs = Some recs"
  shows "read_rows rt months (r # rs)
     = Some (\<lparr>rb_Name = c0, rb_ISIN = clean_meta rt c1, rb_Rating = clean_meta rt c2, rb_Months = mm\<rparr> # recs)"
  using assms by simp

lemma read_rows_skipped:
  assumes "cell_at r 0 = Some c0" "isna c0 \<or> lower (py_str rt c0) = ''nan''"
  shows "read_rows rt months (r # rs) = read_rows rt months rs"
  using assms by simp

lemma clean_meta_plain:
  "lower k \<noteq> ''nan'' \<Longrightarrow> clean_meta rt (from_excel (PStr k)) = k"
  "isna v \<or> lower (py_str rt v) \<noteq> ''nan'' \<Longrightarrow> clean_meta rt (from_excel v) = rating_text rt v"
proof -
  show "lower k \<noteq> ''nan'' \<Longrightarrow> clean_meta rt (from_excel (PStr k)) = k"
    by (simp add: clean_meta_def isna_def from_excel_def)
  show "isna v \<or> lower (py_str rt v) \<noteq> ''nan'' \<Longrightarrow> clean_meta rt (from_excel v) = rating_text rt v"
    by (cases v rule: notna.cases) (auto simp: clean_meta_def isna_def from_excel_def rating_text_def)
qed

lemma read_rows_sheet:
  assumes "distinct ms" and "list_all (plain_texts rt) pf"
  shows "read_rows rt (map PStr ms) (map (map from_excel) (map (data_row rt ms) pf @ [totals_row rt pf' ms]))
     = Some (map (expected_record rt ms) (filter (\<lambda>item. named rt (Name (snd item))) pf)
             @ [total_record rt pf' ms])"
  using assms(2)
proof (induction pf)
  case Nil
  have m: "clean_meta rt (PFl NaN) = []" by (simp add: clean_meta_def isna_def)
  have n: "\<not> (isna (PStr ''Total'') \<or> lower (py_str rt (PStr ''Total'')) = ''nan'')"
    using total_is_named by (simp add: isna_def)
  have "read_rows rt (map PStr ms) [map from_excel (totals_row rt pf' ms)]
      = Some (\<lparr>rb_Name = PStr ''Total'', rb_ISIN = clean_meta rt (PFl NaN),
                rb_Rating = clean_meta rt (PFl NaN),
                rb_Months = rb_Months (total_record rt pf' ms)\<rparr> # [])"
    by (rule read_rows_named [OF totals_row_cells(1) n totals_row_cells(2,3)
          read_total_row [OF assms(1)]]) simp
  then show ?case by (simp add: m total_record_def)
next
  case (Cons item pf)
  let ?r = "map from_excel (data_row rt ms item)"
  let ?rest = "map (map from_excel) (map (data_row rt ms) pf @ [totals_row rt pf' ms])"
  have rows: "map (map from_excel) (map (data_row rt ms) (item # pf) @ [totals_row rt pf' ms]) = ?r # ?rest"
    by simp
  have ih: "read_rows rt (map PStr ms) ?rest
      = Some (map (expected_record rt ms) (filter (\<lambda>item. named rt (Name (snd item))) pf)
             @ [total_record rt pf' ms])"
    using Cons by simp
  have plain: "clean_meta rt (from_excel (PStr (fst item))) = fst item"
    "clean_meta rt (from_excel (Rating (snd item))) = rating_text rt (Rating (snd item))"
    using Cons.prems clean_meta_plain(1) [of "fst item" rt]
      clean_meta_plain(2) [of "Rating (snd item)" rt]
    by (simp_all add: plain_texts_def)
  show ?case
  proof (cases "named rt (Name (snd item))")
    case True
    then have n: "\<not> (isna (from_excel (Name (snd item)))
        \<or> lower (py_str rt (from_excel (Name (snd item)))) = ''nan'')"
      by (simp add: named_from_excel)
    have "read_rows rt (map PStr ms) (?r # ?rest)
        = Some (\<lparr>rb_Name = from_excel (Name (snd item)), rb_ISIN = clean_meta rt (from_excel (PStr (fst item))),
                  rb_Rating = clean_meta rt (from_excel (Rating (snd item))),
                  rb_Months = expected_months rt ms (snd item)\<rparr>
                # (map (expected_record rt ms) (filter (\<lambda>item. named rt (Name (snd item))) pf)
                   @ [total_record rt pf' ms]))"
      by (rule read_rows_named [OF data_row_cells(1) n data_row_cells(2,3)
            read_data_row [OF assms(1)] ih])
    then show ?thesis
      unfolding rows plain using True by (simp add: expected_record_def named_keeps)
  next
    case False
    then have n: "isna (from_excel (Name (snd item)))
        \<or> lower (py_str rt (from_excel (Name (snd item)))) = ''nan''"
      by (simp add: named_from_excel)
    have "read_rows rt (map PStr ms) (?r # ?rest) = read_rows rt (map PStr ms) ?rest"
      by (rule read_rows_skipped [OF data_row_cells(1) n])
    then show ?thesis unfolding rows using False ih by simp
  qed
qed

text \<open>
  Claim C1, as amended. Take a merged mapping and a sequence of distinct, non-empty
  period labels such that the assembled sheet is read back as written, and no identifier
  or rating of the mapping is the text \<open>nan\<close>. Then the read-back gives the period sequence as it
  was written and, in the order of the mapping, one record for every named holding: its
  name, its identifier, its rating as a text (the empty text when there is none), and for
  every period its three metrics, where a metric that is missing, not a number or NaN
  comes back as \<open>0.0\<close>. The holdings that are not named are passed over. After these
  comes one more record, read from the totals row, with the name \<open>Total\<close>, an empty
  identifier and rating, and the column totals as metrics, a NaN total as \<open>0.0\<close>.
\<close>

theorem roundtrip_with_totals:
  assumes "distinct ms"
    and "read_as_written rt (build_sheet rt pf ms)"
    and "list_all (plain_texts rt) pf"
    and "[] \<notin> set ms"
  shows "read_portfolio_data rt (build_sheet rt pf ms)
     = Some \<lparr>rb_months = map PStr ms,
             rb_records = map (expected_record rt ms) (filter (\<lambda>item. named rt (Name (snd item))) pf)
                          @ [total_record rt pf ms]\<rparr>"
proof -
  have months: "filter notna (every_third (drop 3 (map from_excel (month_header_row ms)))) = map PStr ms"
  proof -
    have "drop 3 (map from_excel (month_header_row ms))
        = concat (map (\<lambda>m. [from_excel (PStr m), PFl NaN, PFl NaN]) ms)"
      by (simp add: month_header_row_def headers_static_def from_excel_def map_concat comp_def)
    moreover have "map (\<lambda>m. from_excel (PStr m)) ms = map PStr ms"
      using assms(4) by (induction ms) (auto simp: from_excel_def)
    moreover have "filter notna (map PStr ms) = map PStr ms"
      by (induction ms) simp_all
    ultimately show ?thesis by (simp add: every_third_triples)
  qed
  have df: "read_excel rt 3 None (build_sheet rt pf ms)
      = map (map from_excel) (map (data_row rt ms) pf @ [totals_row rt pf ms])"
    using assms(2) by (simp add: read_as_written_def build_sheet_def)
  have df_months: "read_excel rt 1 (Some 1) (build_sheet rt pf ms) = [map from_excel (month_header_row ms)]"
    using assms(2) by (simp add: read_as_written_def build_sheet_def)
  show ?thesis
    unfolding read_portfolio_data_def df df_months
    using read_rows_sheet [OF assms(1,3), of pf]
    by (simp add: Let_def months)
qed

theorem roundtrip_with_totals_witness:
  "distinct [''January_2025'', ''February_2025'']
   \<and> [] \<notin> set [''January_2025'', ''February_2025'']
   \<and> read_as_written sample_rt (build_sheet sample_rt sample_portfolio [''January_2025'', ''February_2025''])
   \<and> list_all (plain_texts sample_rt) sample_portfolio
   \<and> read_portfolio_data sample_rt (build_sheet sample_rt sample_portfolio [''January_2025'', ''February_2025''])
     = Some \<lparr>rb_months = [PStr ''January_2025'', PStr ''February_2025''],
             rb_records =
               [\<lparr>rb_Name = PStr ''Acme'', rb_ISIN = ''INE1'', rb_Rating = [],
                 rb_Months = [(PStr ''January_2025'', \<lparr>rb_Quantity = Fin 100, rb_Value = Fin 0, rb_Pct = Fin 0\<rparr>),
                              (PStr ''February_2025'', \<lparr>rb_Quantity = Fin 0, rb_Value = Fin 0, rb_Pct = Fin 0\<rparr>)]\<rparr>,
                \<lparr>rb_Name = PStr ''Total'', rb_ISIN = [], rb_Rating = [],
                 rb_Months = [(PStr ''January_2025'', \<lparr>rb_Quantity = Fin 100, rb_Value = Fin 0, rb_Pct = Fin 0\<rparr>),
                              (PStr ''February_2025'', \<lparr>rb_Quantity = Fin 0, rb_Value = Fin 0, rb_Pct = Fin 0\<rparr>)]\<rparr>]\<rparr>"
proof -
  let ?ms = "[''January_2025'', ''February_2025'']"
  have d: "distinct ?ms" by simp
  have w: "read_as_written sample_rt (build_sheet sample_rt sample_portfolio ?ms)"
    by (simp add: read_as_written_def sample_rt_def)
  have p: "list_all (plain_texts sample_rt) sample_portfolio" by code_simp
  have e: "map (expected_record sample_rt ?ms) (filter (\<lambda>item. named sample_rt (Name (snd item))) sample_portfolio)
      = [\<lparr>rb_Name = PStr ''Acme'', rb_ISIN = ''INE1'', rb_Rating = [],
                 rb_Months = [(PStr ''January_2025'', \<lparr>rb_Quantity = Fin 100, rb_Value = Fin 0, rb_Pct = Fin 0\<rparr>),
                              (PStr ''February_2025'', \<lparr>rb_Quantity = Fin 0, rb_Value = Fin 0, rb_Pct = Fin 0\<rparr>)]\<rparr>]"
    by code_simp
  have t: "total_record sample_rt sample_portfolio ?ms
      = \<lparr>rb_Name = PStr ''Total'', rb_ISIN = [], rb_Rating = [],
                 rb_Months = [(PStr ''January_2025'', \<lparr>rb_Quantity = Fin 100, rb_Value = Fin 0, rb_Pct = Fin 0\<rparr>),
                              (PStr ''February_2025'', \<lparr>rb_Quantity = Fin 0, rb_Value = Fin 0, rb_Pct = Fin 0\<rparr>)]\<rparr>"
    by code_simp
  show ?thesis
    using d w p roundtrip_with_totals [OF d w p] unfolding e t by simp
qed

text \<open>
  Claim C1 as stated fails: the read-back of a sheet made from one holding, read back as
  written, has two records, the second one the totals row under the name \<open>Total\<close>
  with an empty identifier, which is no record of the merged mapping.
\<close>

theorem roundtrip_counterexample:
  "map fst sample_portfolio = [''INE1'']
   \<and> read_as_written sample_rt (build_sheet sample_rt sample_portfolio [''January_2025''])
   \<and> map rb_ISIN (rb_records (the (read_portfolio_data sample_rt
        (build_sheet sample_rt sample_portfolio [''January_2025'']))))
     = [''INE1'', []]
   \<and> map rb_Name (rb_records (the (read_portfolio_data sample_rt
        (build_sheet sample_rt sample_portfolio [''January_2025'']))))
     = [PStr ''Acme'', PStr ''Total'']"
proof -
  have w: "read_as_written sample_rt (build_sheet sample_rt sample_portfolio [''January_2025''])"
    by (simp add: read_as_written_def sample_rt_def)
  have r: "map rb_ISIN (rb_records (the (read_portfolio_data sample_rt
        (build_sheet sample_rt sample_portfolio [''January_2025''])))) = [''INE1'', []]
     \<and> map rb_Name (rb_records (the (read_portfolio_data sample_rt
        (build_sheet sample_rt sample_portfolio [''January_2025'']))))
     = [PStr ''Acme'', PStr ''Total'']"
    by code_simp
  have k: "map fst sample_portfolio = [''INE1'']" by (simp add: sample_portfolio_def)
  show ?thesis using w r k by (intro conjI) simp_all
qed

end
